theory Spec2Isabelle
  imports Complex_Main "HOL-Library.Log_Nat"
begin

section \<open>JavaScript numbers\<close>

text \<open>
  Every number of the game is a JavaScript Number, an IEEE 754 binary64 value. A finite
  double is modelled by the real number it denotes, and every arithmetic operation is the
  exact operation followed by \<open>rnd\<close>: rounding to the nearest double, ties to the even
  significand, with 53 significant bits and gradual underflow below \<open>2 powi (- 1022)\<close>.
  A decimal literal of the source such as \<open>0.3\<close> is \<open>rnd (3 / 10)\<close>, the double the
  JavaScript parser produces. Infinities, NaN and the sign of zero are outside the model:
  no operation of the game divides by zero, and the quantities in play stay far below the
  overflow threshold.
\<close>

definition ilog2 :: "real \<Rightarrow> int" where
  "ilog2 x = (if 1 \<le> x then bitlen \<lfloor>x\<rfloor> - 1 else - bitlen (\<lceil>1 / x\<rceil> - 1))"

definition round_half_even :: "real \<Rightarrow> int" where
  "round_half_even y =
     (if y - of_int \<lfloor>y\<rfloor> < 1 / 2 then \<lfloor>y\<rfloor>
      else if 1 / 2 < y - of_int \<lfloor>y\<rfloor> then \<lfloor>y\<rfloor> + 1
      else if even \<lfloor>y\<rfloor> then \<lfloor>y\<rfloor> else \<lfloor>y\<rfloor> + 1)"

definition fexp :: "real \<Rightarrow> int" where
  "fexp x = max (ilog2 \<bar>x\<bar>) (- 1022)"

definition ulp :: "real \<Rightarrow> real" where
  "ulp x = 2 powi (fexp x - 52)"

definition rnd :: "real \<Rightarrow> real" where
  "rnd x = (if x = 0 then 0 else of_int (round_half_even (x / ulp x)) * ulp x)"

definition fadd :: "real \<Rightarrow> real \<Rightarrow> real" where
  "fadd a b = rnd (a + b)"

definition fsub :: "real \<Rightarrow> real \<Rightarrow> real" where
  "fsub a b = rnd (a - b)"

definition fmul :: "real \<Rightarrow> real \<Rightarrow> real" where
  "fmul a b = rnd (a * b)"

definition fdiv :: "real \<Rightarrow> real \<Rightarrow> real" where
  "fdiv a b = rnd (a / b)"

text \<open>\<open>Math.PI\<close>, the double nearest to the circle constant.\<close>

definition Math_PI :: real where
  "Math_PI = 884279719003555 / 281474976710656"

text \<open>
  A thrown \<open>TypeError\<close> (a property read on \<open>null\<close>) is the result \<open>None\<close>; what
  the throwing call had already written is not kept.
\<close>

definition bind_opt :: "'a option \<Rightarrow> ('a \<Rightarrow> 'b option) \<Rightarrow> 'b option" where
  "bind_opt r f = (case r of None \<Rightarrow> None | Some v \<Rightarrow> f v)"

section \<open>The parts of THREE the game logic uses\<close>

text \<open>
  THREE is an external library. \<open>Vector3\<close> and \<open>Box3\<close> are records (the fields
  \<open>x\<close>, \<open>y\<close>, \<open>z\<close>, \<open>min\<close>, \<open>max\<close> are written \<open>vx\<close>, \<open>vy\<close>, \<open>vz\<close>,
  \<open>bmin\<close>, \<open>bmax\<close>); \<open>getSize\<close>, \<open>getCenter\<close> and \<open>intersectsBox\<close> follow the
  library's documented behaviour. \<open>Box3.setFromObject\<close>, which measures a mesh from its
  geometry and world transform, is a parameter of every function that calls it.
\<close>

record vec3 =
  vx :: real
  vy :: real
  vz :: real

record box3 =
  bmin :: vec3
  bmax :: vec3

definition Vector3 :: "real \<Rightarrow> real \<Rightarrow> real \<Rightarrow> vec3" where
  "Vector3 a b c = \<lparr>vx = a, vy = b, vz = c\<rparr>"

definition Box3 :: "vec3 \<Rightarrow> vec3 \<Rightarrow> box3" where
  "Box3 lo hi = \<lparr>bmin = lo, bmax = hi\<rparr>"

definition isEmpty :: "box3 \<Rightarrow> bool" where
  "isEmpty b \<longleftrightarrow>
     vx (bmax b) < vx (bmin b) \<or> vy (bmax b) < vy (bmin b) \<or> vz (bmax b) < vz (bmin b)"

definition getSize :: "box3 \<Rightarrow> vec3" where
  "getSize b =
     (if isEmpty b then Vector3 0 0 0
      else Vector3 (fsub (vx (bmax b)) (vx (bmin b)))
                   (fsub (vy (bmax b)) (vy (bmin b)))
                   (fsub (vz (bmax b)) (vz (bmin b))))"

definition getCenter :: "box3 \<Rightarrow> vec3" where
  "getCenter b =
     (if isEmpty b then Vector3 0 0 0
      else Vector3 (fmul (fadd (vx (bmin b)) (vx (bmax b))) (1 / 2))
                   (fmul (fadd (vy (bmin b)) (vy (bmax b))) (1 / 2))
                   (fmul (fadd (vz (bmin b)) (vz (bmax b))) (1 / 2)))"

definition intersectsBox :: "box3 \<Rightarrow> box3 \<Rightarrow> bool" where
  "intersectsBox this box =
     (if vx (bmax box) < vx (bmin this) \<or> vx (bmin box) > vx (bmax this)
       \<or> vy (bmax box) < vy (bmin this) \<or> vy (bmin box) > vy (bmax this)
       \<or> vz (bmax box) < vz (bmin this) \<or> vz (bmin box) > vz (bmax this)
      then False else True)"

text \<open>
  Player.updateCollider and ObstacleManager.updateObstacleCollider build the same box:
  around the centre of the measured box, with each extent multiplied by a scale factor,
  \<open>center.x - size.x * scale.x / 2\<close> to \<open>center.x + size.x * scale.x / 2\<close>.
\<close>

definition scaledBox :: "vec3 \<Rightarrow> box3 \<Rightarrow> box3" where
  "scaledBox k b =
     (let size = getSize b; center = getCenter b
      in Box3 (Vector3 (fsub (vx center) (fdiv (fmul (vx size) (vx k)) 2))
                       (fsub (vy center) (fdiv (fmul (vy size) (vy k)) 2))
                       (fsub (vz center) (fdiv (fmul (vz size) (vz k)) 2)))
              (Vector3 (fadd (vx center) (fdiv (fmul (vx size) (vx k)) 2))
                       (fadd (vy center) (fdiv (fmul (vy size) (vy k)) 2))
                       (fadd (vz center) (fdiv (fmul (vz size) (vz k)) 2))))"

section \<open>Player\<close>

text \<open>
  The player's mesh is a THREE.Group holding body, head, legs and arms. The game logic
  reads and writes its position, its rotation about z (the tilt) and the rotation about x
  of the four limbs; these are the fields of \<open>pmesh\<close>. The scene, the textures and the
  materials play no part in the logic and are left out.
\<close>

record pmesh =
  mesh_position :: vec3
  rotation_z :: real
  leftLeg_rotation_x :: real
  rightLeg_rotation_x :: real
  leftArm_rotation_x :: real
  rightArm_rotation_x :: real

text \<open>
  \<open>mesh\<close> and \<open>collider\<close> are \<open>null\<close> until createPlayer has run. \<open>jumpVelocity\<close>
  does not exist before the first jump(); it is never read before it is written, and
  the model starts it at 0.
\<close>

record player =
  mesh :: "pmesh option"
  collider :: "box3 option"
  isJumping :: bool
  isFalling :: bool
  jumpVelocity :: real
  runningSpeed :: real
  jumpForce :: real
  gravity :: real
  jumpHeight :: real
  lateralSpeed :: real
  maxLateralPosition :: real
  position :: vec3
  legRotationSpeed :: real
  maxLegRotation :: real
  legRotationDirection :: real
  currentLegRotation :: real

text \<open>The collider updateCollider() computes for a mesh: its measured box, shrunk to 0.8.\<close>

definition playerBox :: "(pmesh \<Rightarrow> box3) \<Rightarrow> pmesh \<Rightarrow> box3" where
  "playerBox setFromObject m =
     scaledBox (Vector3 (rnd (8 / 10)) (rnd (8 / 10)) (rnd (8 / 10))) (setFromObject m)"

definition updateCollider :: "(pmesh \<Rightarrow> box3) \<Rightarrow> player \<Rightarrow> player option" where
  "updateCollider setFromObject p =
     (case mesh p of
        None \<Rightarrow> None
      | Some m \<Rightarrow> Some (p\<lparr>collider := Some (playerBox setFromObject m)\<rparr>))"

definition Player_fields :: player where
  "Player_fields =
     \<lparr>mesh = None, collider = None, isJumping = False, isFalling = False, jumpVelocity = 0,
      runningSpeed = rnd (2 / 10), jumpForce = rnd (15 / 100), gravity = rnd (5 / 1000),
      jumpHeight = 2, lateralSpeed = rnd (3 / 10), maxLateralPosition = 3,
      position = Vector3 0 0 5,
      legRotationSpeed = rnd (1 / 10), maxLegRotation = fdiv Math_PI 4,
      legRotationDirection = 1, currentLegRotation = 0\<rparr>"

text \<open>The group createPlayer() builds: at the given position, nothing rotated.\<close>

definition createMesh :: "vec3 \<Rightarrow> pmesh" where
  "createMesh pos =
     \<lparr>mesh_position = pos, rotation_z = 0, leftLeg_rotation_x = 0, rightLeg_rotation_x = 0,
      leftArm_rotation_x = 0, rightArm_rotation_x = 0\<rparr>"

definition createPlayer :: "(pmesh \<Rightarrow> box3) \<Rightarrow> player \<Rightarrow> player option" where
  "createPlayer setFromObject p =
     updateCollider setFromObject (p\<lparr>mesh := Some (createMesh (position p))\<rparr>)"

definition Player_new :: "(pmesh \<Rightarrow> box3) \<Rightarrow> player option" where
  "Player_new setFromObject = createPlayer setFromObject Player_fields"

definition jump :: "player \<Rightarrow> player" where
  "jump p =
     (if \<not> isJumping p \<and> \<not> isFalling p
      then p\<lparr>isJumping := True, jumpVelocity := jumpForce p\<rparr>
      else p)"

text \<open>The first branch of update(): gravity, the move along y, apex and landing.\<close>

definition applyGravity :: "player \<Rightarrow> pmesh \<Rightarrow> player \<times> pmesh" where
  "applyGravity p m =
     (let p1 = p\<lparr>jumpVelocity := fsub (jumpVelocity p) (gravity p)\<rparr>;
          m1 = m\<lparr>mesh_position :=
                  (mesh_position m)\<lparr>vy := fadd (vy (mesh_position m)) (jumpVelocity p1)\<rparr>\<rparr>;
          p2 = (if isJumping p1 \<and> jumpVelocity p1 \<le> 0
                then p1\<lparr>isJumping := False, isFalling := True\<rparr> else p1)
      in if isFalling p2 \<and> vy (mesh_position m1) \<le> vy (position p2)
         then (p2\<lparr>isFalling := False\<rparr>,
               m1\<lparr>mesh_position := (mesh_position m1)\<lparr>vy := vy (position p2)\<rparr>\<rparr>)
         else (p2, m1))"

definition animateRunning :: "player \<Rightarrow> pmesh \<Rightarrow> player \<times> pmesh" where
  "animateRunning p m =
     (let c = fadd (currentLegRotation p) (fmul (legRotationSpeed p) (legRotationDirection p));
          p1 = p\<lparr>currentLegRotation := c\<rparr>;
          p2 = (if \<bar>c\<bar> \<ge> maxLegRotation p1
                then p1\<lparr>legRotationDirection := fmul (legRotationDirection p1) (- 1)\<rparr>
                else p1)
      in (p2, m\<lparr>leftLeg_rotation_x := c, rightLeg_rotation_x := - c,
                leftArm_rotation_x := fmul (- c) (1 / 2),
                rightArm_rotation_x := fmul c (1 / 2)\<rparr>))"

definition returnToCenter :: "pmesh \<Rightarrow> pmesh" where
  "returnToCenter m =
     (if rotation_z m > rnd (1 / 100) then m\<lparr>rotation_z := fsub (rotation_z m) (rnd (1 / 100))\<rparr>
      else if rotation_z m < - rnd (1 / 100)
        then m\<lparr>rotation_z := fadd (rotation_z m) (rnd (1 / 100))\<rparr>
      else m\<lparr>rotation_z := 0\<rparr>)"

definition Player_update :: "(pmesh \<Rightarrow> box3) \<Rightarrow> player \<Rightarrow> player option" where
  "Player_update setFromObject p =
     (case mesh p of
        None \<Rightarrow> None
      | Some m \<Rightarrow>
          (case (if isJumping p \<or> isFalling p then applyGravity p m else animateRunning p m) of
             (p1, m1) \<Rightarrow> updateCollider setFromObject (p1\<lparr>mesh := Some (returnToCenter m1)\<rparr>)))"

definition moveLeft :: "(pmesh \<Rightarrow> box3) \<Rightarrow> player \<Rightarrow> player option" where
  "moveLeft setFromObject p =
     (case mesh p of
        None \<Rightarrow> None
      | Some m \<Rightarrow>
          if vx (mesh_position m) > - maxLateralPosition p
          then updateCollider setFromObject
                 (p\<lparr>mesh := Some (m\<lparr>mesh_position :=
                        (mesh_position m)\<lparr>vx := fsub (vx (mesh_position m)) (lateralSpeed p)\<rparr>,
                      rotation_z := min (fadd (rotation_z m) (rnd (5 / 100))) (rnd (2 / 10))\<rparr>)\<rparr>)
          else Some p)"

definition moveRight :: "(pmesh \<Rightarrow> box3) \<Rightarrow> player \<Rightarrow> player option" where
  "moveRight setFromObject p =
     (case mesh p of
        None \<Rightarrow> None
      | Some m \<Rightarrow>
          if vx (mesh_position m) < maxLateralPosition p
          then updateCollider setFromObject
                 (p\<lparr>mesh := Some (m\<lparr>mesh_position :=
                        (mesh_position m)\<lparr>vx := fadd (vx (mesh_position m)) (lateralSpeed p)\<rparr>,
                      rotation_z := max (fsub (rotation_z m) (rnd (5 / 100))) (- rnd (2 / 10))\<rparr>)\<rparr>)
          else Some p)"

definition Player_reset :: "(pmesh \<Rightarrow> box3) \<Rightarrow> player \<Rightarrow> player option" where
  "Player_reset setFromObject p =
     (case mesh p of
        None \<Rightarrow> None
      | Some m \<Rightarrow>
          updateCollider setFromObject
            (p\<lparr>isJumping := False, isFalling := False,
               mesh := Some (m\<lparr>mesh_position := position p, rotation_z := 0\<rparr>)\<rparr>))"


text \<open>A sequence of calls on one player; a thrown error ends it.\<close>

datatype player_call = Jump | Update | MoveLeft | MoveRight | Reset

fun apply_call :: "(pmesh \<Rightarrow> box3) \<Rightarrow> player_call \<Rightarrow> player \<Rightarrow> player option" where
  "apply_call sfo Jump p = Some (jump p)"
| "apply_call sfo Update p = Player_update sfo p"
| "apply_call sfo MoveLeft p = moveLeft sfo p"
| "apply_call sfo MoveRight p = moveRight sfo p"
| "apply_call sfo Reset p = Player_reset sfo p"

fun apply_calls :: "(pmesh \<Rightarrow> box3) \<Rightarrow> player_call list \<Rightarrow> player \<Rightarrow> player option" where
  "apply_calls sfo [] p = Some p"
| "apply_calls sfo (c # cs) p = bind_opt (apply_call sfo c p) (apply_calls sfo cs)"

text \<open>
  The spec's vocabulary for the two flags and the three pose coordinates the claims
  speak of.
\<close>

datatype phase = Grounded | Ascending | Descending

definition phaseOf :: "player \<Rightarrow> phase" where
  "phaseOf p = (if isJumping p then Ascending else if isFalling p then Descending else Grounded)"

definition lateralOffset :: "player \<Rightarrow> real option" where
  "lateralOffset p = map_option (\<lambda>m. vx (mesh_position m)) (mesh p)"

definition verticalOffset :: "player \<Rightarrow> real option" where
  "verticalOffset p = map_option (\<lambda>m. vy (mesh_position m)) (mesh p)"

definition tiltAngle :: "player \<Rightarrow> real option" where
  "tiltAngle p = map_option rotation_z (mesh p)"

section \<open>ObstacleManager\<close>

text \<open>
  An obstacle is a JavaScript object that the pool and the active list both hold by
  reference. The objects live in \<open>objs\<close>, in the order createObstacle made them, and a
  reference is an index into \<open>objs\<close>: the length of \<open>objs\<close> is the number of obstacle
  records ever created. Each call of \<open>Math.random()\<close> is an argument of the function
  that makes it.
\<close>

datatype shape = RockMesh | LogMesh | TreeMesh | PuddleMesh | BarrierMesh

record omesh =
  shape :: shape
  omesh_position :: vec3
  visible :: bool

record obstacle =
  otype :: "string option"
  omesh :: omesh
  ocollider :: "box3 option"
  active :: bool
  colliderScale :: vec3

record obstacleManager =
  objs :: "obstacle list"
  activeObstacles :: "nat list"
  obstaclePool :: "nat list"
  obstacleTypes :: "string list"
  spawnDistance :: real
  minSpawnInterval :: real
  maxSpawnInterval :: real
  nextSpawnTime :: real
  timeSinceLastSpawn :: real
  speed :: real
  initialSpeed :: real
  speedIncreaseRate :: real

text \<open>The draws of one update(): they are consumed only where the code reaches them.\<close>

record draws =
  type_draw :: real
  lane_draw :: real
  interval_draw :: real

definition getRandomObstacleType :: "real \<Rightarrow> obstacleManager \<Rightarrow> string option" where
  "getRandomObstacleType r s =
     (let index = \<lfloor>fmul r (of_nat (length (obstacleTypes s)))\<rfloor>
      in if 0 \<le> index \<and> nat index < length (obstacleTypes s)
         then Some (obstacleTypes s ! nat index) else None)"

definition getRandomSpawnInterval :: "real \<Rightarrow> obstacleManager \<Rightarrow> real" where
  "getRandomSpawnInterval r s =
     fadd (fmul r (fsub (maxSpawnInterval s) (minSpawnInterval s))) (minSpawnInterval s)"

definition createRock :: omesh where
  "createRock = \<lparr>shape = RockMesh, omesh_position = Vector3 0 (1 / 2) 0, visible = True\<rparr>"

definition createLog :: omesh where
  "createLog = \<lparr>shape = LogMesh, omesh_position = Vector3 0 0 0, visible = True\<rparr>"

definition createTree :: omesh where
  "createTree = \<lparr>shape = TreeMesh, omesh_position = Vector3 0 0 0, visible = True\<rparr>"

definition createPuddle :: omesh where
  "createPuddle =
     \<lparr>shape = PuddleMesh, omesh_position = Vector3 0 (rnd (5 / 100)) 0, visible = True\<rparr>"

definition createBarrier :: omesh where
  "createBarrier = \<lparr>shape = BarrierMesh, omesh_position = Vector3 0 0 0, visible = True\<rparr>"

text \<open>The \<open>switch\<close> of createObstacle: the mesh and the collider scale of a type.\<close>

definition obstacleMesh :: "string option \<Rightarrow> omesh \<times> vec3" where
  "obstacleMesh type =
     (if type = Some ''rock''
        then (createRock, Vector3 (rnd (9 / 10)) (rnd (9 / 10)) (rnd (9 / 10)))
      else if type = Some ''log''
        then (createLog, Vector3 (rnd (9 / 10)) (rnd (9 / 10)) (rnd (12 / 10)))
      else if type = Some ''tree''
        then (createTree, Vector3 (rnd (7 / 10)) (rnd (9 / 10)) (rnd (7 / 10)))
      else if type = Some ''puddle''
        then (createPuddle, Vector3 (rnd (12 / 10)) (1 / 2) (rnd (12 / 10)))
      else if type = Some ''barrier''
        then (createBarrier, Vector3 (rnd (11 / 10)) (rnd (9 / 10)) (rnd (8 / 10)))
      else (createRock, Vector3 1 1 1))"

definition newObstacle :: "string option \<Rightarrow> obstacle" where
  "newObstacle type =
     (case obstacleMesh type of
        (mesh0, scale) \<Rightarrow>
          \<lparr>otype = type, omesh = mesh0\<lparr>visible := False\<rparr>, ocollider = None,
           active = False, colliderScale = scale\<rparr>)"

text \<open>createObstacle returns the new object; here it is stored and its reference returned.\<close>

definition createObstacle :: "string option \<Rightarrow> obstacleManager \<Rightarrow> nat \<times> obstacleManager" where
  "createObstacle type s = (length (objs s), s\<lparr>objs := objs s @ [newObstacle type]\<rparr>)"

fun preloadObstacles :: "(nat \<Rightarrow> real) \<Rightarrow> nat \<Rightarrow> obstacleManager \<Rightarrow> obstacleManager" where
  "preloadObstacles rs 0 s = s"
| "preloadObstacles rs (Suc n) s =
     (case createObstacle (getRandomObstacleType (rs 0) s) s of
        (ob, s1) \<Rightarrow>
          preloadObstacles (\<lambda>i. rs (Suc i)) n (s1\<lparr>obstaclePool := obstaclePool s1 @ [ob]\<rparr>))"

definition ObstacleManager_fields :: obstacleManager where
  "ObstacleManager_fields =
     \<lparr>objs = [], activeObstacles = [], obstaclePool = [],
      obstacleTypes = [''rock'', ''log'', ''tree'', ''puddle'', ''barrier''],
      spawnDistance = 80, minSpawnInterval = 3 / 2, maxSpawnInterval = 3,
      nextSpawnTime = 0, timeSinceLastSpawn = 0,
      speed = rnd (2 / 10), initialSpeed = rnd (2 / 10),
      speedIncreaseRate = rnd (1 / 100000)\<rparr>"

text \<open>
  The constructor draws the first spawn interval, then preloads ten obstacles with one
  draw each: \<open>r0\<close> is the first value of \<open>Math.random()\<close>, \<open>rs\<close> the ones after it.
\<close>

definition ObstacleManager_new :: "real \<Rightarrow> (nat \<Rightarrow> real) \<Rightarrow> obstacleManager" where
  "ObstacleManager_new r0 rs =
     preloadObstacles rs 10
       (ObstacleManager_fields
          \<lparr>nextSpawnTime := getRandomSpawnInterval r0 ObstacleManager_fields\<rparr>)"

definition updateObstacleCollider :: "(omesh \<Rightarrow> box3) \<Rightarrow> obstacle \<Rightarrow> obstacle" where
  "updateObstacleCollider setFromObject ob =
     ob\<lparr>ocollider := Some (scaledBox (colliderScale ob) (setFromObject (omesh ob)))\<rparr>"

definition spawnObstacle :: "(omesh \<Rightarrow> box3) \<Rightarrow> draws \<Rightarrow> obstacleManager \<Rightarrow> obstacleManager" where
  "spawnObstacle setFromObject d s =
     (let (ob, s1) =
            (if length (obstaclePool s) > 0
             then (last (obstaclePool s), s\<lparr>obstaclePool := butlast (obstaclePool s)\<rparr>)
             else createObstacle (getRandomObstacleType (type_draw d) s) s);
          lane = fsub (of_int \<lfloor>fmul (lane_draw d) 3\<rfloor>) 1;
          o0 = objs s1 ! ob;
          o1 = o0\<lparr>omesh := (omesh o0)\<lparr>omesh_position :=
                   (omesh_position (omesh o0))\<lparr>vz := - spawnDistance s1, vx := fmul lane 2\<rparr>,
                 visible := True\<rparr>,
               active := True\<rparr>;
          o2 = updateObstacleCollider setFromObject o1
      in s1\<lparr>objs := (objs s1)[ob := o2], activeObstacles := activeObstacles s1 @ [ob]\<rparr>)"

text \<open>One pass of the loop body of update(), at index \<open>i\<close> of the active list.\<close>

definition moveObstacle :: "(omesh \<Rightarrow> box3) \<Rightarrow> nat \<Rightarrow> obstacleManager \<Rightarrow> obstacleManager" where
  "moveObstacle setFromObject i s =
     (let ob = activeObstacles s ! i;
          o0 = objs s ! ob;
          o1 = o0\<lparr>omesh := (omesh o0)\<lparr>omesh_position :=
                   (omesh_position (omesh o0))\<lparr>vz :=
                      fadd (vz (omesh_position (omesh o0))) (speed s)\<rparr>\<rparr>\<rparr>;
          o2 = updateObstacleCollider setFromObject o1
      in if vz (omesh_position (omesh o2)) > 10
         then s\<lparr>objs := (objs s)[ob := o2\<lparr>omesh := (omesh o2)\<lparr>visible := False\<rparr>,
                                              active := False\<rparr>],
                activeObstacles := take i (activeObstacles s) @ drop (Suc i) (activeObstacles s),
                obstaclePool := obstaclePool s @ [ob]\<rparr>
         else s\<lparr>objs := (objs s)[ob := o2]\<rparr>)"

text \<open>The loop \<open>for (let i = length - 1; i >= 0; i--)\<close>: \<open>n\<close> is \<open>i + 1\<close>.\<close>

fun moveObstacles :: "(omesh \<Rightarrow> box3) \<Rightarrow> nat \<Rightarrow> obstacleManager \<Rightarrow> obstacleManager" where
  "moveObstacles setFromObject 0 s = s"
| "moveObstacles setFromObject (Suc i) s =
     moveObstacles setFromObject i (moveObstacle setFromObject i s)"

definition ObstacleManager_update ::
    "(omesh \<Rightarrow> box3) \<Rightarrow> real \<Rightarrow> real \<Rightarrow> draws \<Rightarrow> obstacleManager \<Rightarrow> obstacleManager" where
  "ObstacleManager_update setFromObject deltaTime score d s =
     (let s1 = s\<lparr>speed := fadd (initialSpeed s) (fmul score (speedIncreaseRate s))\<rparr>;
          s2 = s1\<lparr>timeSinceLastSpawn := fadd (timeSinceLastSpawn s1) deltaTime\<rparr>;
          s3 = (if timeSinceLastSpawn s2 \<ge> nextSpawnTime s2
                then (let s' = spawnObstacle setFromObject d s2
                      in s'\<lparr>timeSinceLastSpawn := 0,
                            nextSpawnTime := getRandomSpawnInterval (interval_draw d) s'\<rparr>)
                else s2)
      in moveObstacles setFromObject (length (activeObstacles s3)) s3)"

definition deactivate :: "obstacleManager \<Rightarrow> nat \<Rightarrow> obstacleManager" where
  "deactivate s ob =
     s\<lparr>objs := (objs s)[ob := (objs s ! ob)\<lparr>omesh := (omesh (objs s ! ob))\<lparr>visible := False\<rparr>,
                                              active := False\<rparr>],
       obstaclePool := obstaclePool s @ [ob]\<rparr>"

definition ObstacleManager_reset :: "real \<Rightarrow> obstacleManager \<Rightarrow> obstacleManager" where
  "ObstacleManager_reset r s =
     (let s1 = foldl deactivate s (activeObstacles s);
          s2 = s1\<lparr>activeObstacles := [], speed := initialSpeed s1, timeSinceLastSpawn := 0\<rparr>
      in s2\<lparr>nextSpawnTime := getRandomSpawnInterval r s2\<rparr>)"

datatype manager_call = ManagerUpdate real real draws | ManagerReset real

fun manager_calls ::
    "(omesh \<Rightarrow> box3) \<Rightarrow> manager_call list \<Rightarrow> obstacleManager \<Rightarrow> obstacleManager" where
  "manager_calls sfo [] s = s"
| "manager_calls sfo (ManagerUpdate dt score d # cs) s =
     manager_calls sfo cs (ObstacleManager_update sfo dt score d s)"
| "manager_calls sfo (ManagerReset r # cs) s =
     manager_calls sfo cs (ObstacleManager_reset r s)"

section \<open>CollisionDetector\<close>

text \<open>
  The detector holds the player and the obstacle manager by reference; a call returns
  its result together with both, as the call leaves them.
\<close>

record detector =
  player :: player
  obstacles :: obstacleManager
  collisionThreshold :: real

definition CollisionDetector_new :: "player \<Rightarrow> obstacleManager \<Rightarrow> detector" where
  "CollisionDetector_new p s =
     \<lparr>player = p, obstacles = s, collisionThreshold = rnd (8 / 10)\<rparr>"

definition checkObstacleCollision :: "detector \<Rightarrow> obstacle \<Rightarrow> bool option" where
  "checkObstacleCollision d ob =
     (case ocollider ob of
        None \<Rightarrow> Some False
      | Some obox \<Rightarrow>
          (case collider (player d) of
             None \<Rightarrow> None
           | Some pbox \<Rightarrow> Some (intersectsBox pbox obox)))"

text \<open>The \<open>for ... of\<close> loop of checkCollisions, leaving at the first hit.\<close>

fun scanObstacles :: "detector \<Rightarrow> obstacle list \<Rightarrow> bool option" where
  "scanObstacles d [] = Some False"
| "scanObstacles d (ob # obs) =
     bind_opt (checkObstacleCollision d ob)
       (\<lambda>hit. if hit then Some True else scanObstacles d obs)"

definition activeRecords :: "obstacleManager \<Rightarrow> obstacle list" where
  "activeRecords s = map (\<lambda>ob. objs s ! ob) (activeObstacles s)"

definition checkCollisions :: "(pmesh \<Rightarrow> box3) \<Rightarrow> detector \<Rightarrow> (bool \<times> detector) option" where
  "checkCollisions setFromObject d =
     (if mesh (player d) = None \<or> collider (player d) = None then Some (False, d)
      else bind_opt (updateCollider setFromObject (player d))
             (\<lambda>p. let d1 = d\<lparr>player := p\<rparr>
                  in map_option (\<lambda>hit. (hit, d1))
                       (scanObstacles d1 (activeRecords (obstacles d1)))))"

section \<open>Projections of the state used in the proofs\<close>

fun iterate :: "nat \<Rightarrow> ('a \<Rightarrow> 'a) \<Rightarrow> 'a \<Rightarrow> 'a" where
  "iterate 0 f a = a"
| "iterate (Suc n) f a = iterate n f (f a)"

text \<open>What moveLeft() and moveRight() do to the lateral coordinate.\<close>

definition stepLeft :: "real \<Rightarrow> real \<Rightarrow> real \<Rightarrow> real" where
  "stepLeft bound step a = (if a > - bound then fsub a step else a)"

definition stepRight :: "real \<Rightarrow> real \<Rightarrow> real \<Rightarrow> real" where
  "stepRight bound step a = (if a < bound then fadd a step else a)"

text \<open>
  What update() does to the two flags, the vertical velocity and the height: the part of
  the state the jump arc lives in. \<open>arcStep g y0\<close> is applyGravity read on that
  quadruple, for gravity \<open>g\<close> and ground height \<open>y0\<close>.
\<close>

type_synonym arc = "bool \<times> bool \<times> real \<times> real"

definition arcOf :: "player \<Rightarrow> arc option" where
  "arcOf p =
     map_option (\<lambda>m. (isJumping p, isFalling p, jumpVelocity p, vy (mesh_position m))) (mesh p)"

definition arcLand :: "real \<Rightarrow> bool \<Rightarrow> bool \<Rightarrow> real \<Rightarrow> real \<Rightarrow> arc" where
  "arcLand y0 j f v a = (if f \<and> a \<le> y0 then (j, False, v, y0) else (j, f, v, a))"

definition arcMove :: "real \<Rightarrow> bool \<Rightarrow> bool \<Rightarrow> real \<Rightarrow> real \<Rightarrow> arc" where
  "arcMove y0 j f v a = arcLand y0 (j \<and> \<not> v \<le> 0) (f \<or> (j \<and> v \<le> 0)) v (fadd a v)"

definition arcStep :: "real \<Rightarrow> real \<Rightarrow> arc \<Rightarrow> arc" where
  "arcStep g y0 s = (case s of (j, f, v, a) \<Rightarrow> if j \<or> f then arcMove y0 j f (fsub v g) a else s)"

text \<open>\<open>arcRun\<close> takes \<open>n\<close> steps and checks a predicate after each of them.\<close>

fun arcRun :: "real \<Rightarrow> real \<Rightarrow> nat \<Rightarrow> (arc \<Rightarrow> bool) \<Rightarrow> arc \<Rightarrow> arc option" where
  "arcRun g y0 0 P s = Some s"
| "arcRun g y0 (Suc n) P s =
     (if P (arcStep g y0 s) then arcRun g y0 n P (arcStep g y0 s) else None)"

definition arcCheck :: "real \<Rightarrow> real \<Rightarrow> nat \<Rightarrow> (arc \<Rightarrow> bool) \<Rightarrow> arc \<Rightarrow> arc option" where
  "arcCheck g y0 n P s = (if P s then arcRun g y0 n P s else None)"

definition rising :: "arc \<Rightarrow> bool" where
  "rising s = (case s of (j, f, v, a) \<Rightarrow> j \<and> \<not> f \<and> 0 < a)"

definition dropping :: "arc \<Rightarrow> bool" where
  "dropping s = (case s of (j, f, v, a) \<Rightarrow> \<not> j \<and> f \<and> 0 < a)"

text \<open>The arc right after jump(), after the 30th update and from the 59th update on.\<close>

definition arc0 :: arc where
  "arc0 = (True, False, 5404319552844595 / 36028797018963968, 0)"

definition arc30 :: arc where
  "arc30 = (False, True, - (41 / 576460752303423488), 2448832297382705 / 1125899906842624)"

definition arc59 :: arc where
  "arc59 = (False, False, - (1306043891937445 / 9007199254740992), 0)"

text \<open>The tilt is a double between -0.2 and 0.2.\<close>

definition tiltOk :: "real \<Rightarrow> bool" where
  "tiltOk t \<longleftrightarrow> rnd t = t \<and> - rnd (2 / 10) \<le> t \<and> t \<le> rnd (2 / 10)"

text \<open>
  A measuring function for closed examples: it takes every mesh for a cuboid 2 wide,
  3 high and 2 deep standing at the mesh position.
\<close>

definition cuboidAt :: "pmesh \<Rightarrow> box3" where
  "cuboidAt m =
     Box3 (Vector3 (fsub (vx (mesh_position m)) 1) (vy (mesh_position m))
                   (fsub (vz (mesh_position m)) 1))
          (Vector3 (fadd (vx (mesh_position m)) 1) (fadd (vy (mesh_position m)) 3)
                   (fadd (vz (mesh_position m)) 1))"

text \<open>
  The fields of the obstacle manager that are set once, and the three that time the
  spawns and the speed.
\<close>

definition settings ::
    "obstacleManager \<Rightarrow> string list \<times> real \<times> real \<times> real \<times> real \<times> real" where
  "settings s =
     (obstacleTypes s, spawnDistance s, minSpawnInterval s, maxSpawnInterval s,
      initialSpeed s, speedIncreaseRate s)"

definition timing :: "obstacleManager \<Rightarrow> real \<times> real \<times> real" where
  "timing s = (nextSpawnTime s, timeSinceLastSpawn s, speed s)"

text \<open>
  Every obstacle record ever created is referenced exactly once, from the pool or from
  the active list.
\<close>

definition poolInv :: "obstacleManager \<Rightarrow> bool" where
  "poolInv s \<longleftrightarrow>
     distinct (obstaclePool s @ activeObstacles s)
     \<and> set (obstaclePool s @ activeObstacles s) = {..<length (objs s)}"

text \<open>For closed examples: \<open>Math.random()\<close> returning 0 every time, and a measuring
  function that takes every obstacle for a cube of side 2 at its mesh position.\<close>

definition zeroDraws :: "nat \<Rightarrow> real" where
  "zeroDraws i = 0"

definition cubeAt :: "omesh \<Rightarrow> box3" where
  "cubeAt m =
     Box3 (Vector3 (fsub (vx (omesh_position m)) 1) (fsub (vy (omesh_position m)) 1)
                   (fsub (vz (omesh_position m)) 1))
          (Vector3 (fadd (vx (omesh_position m)) 1) (fadd (vy (omesh_position m)) 1)
                   (fadd (vz (omesh_position m)) 1))"

text \<open>
  A second measuring function for closed examples, which sees the tilt: the cuboid is
  wider by the absolute value of the rotation about z on either side.
\<close>

definition tiltedCuboidAt :: "pmesh \<Rightarrow> box3" where
  "tiltedCuboidAt m =
     Box3 (Vector3 (fsub (fsub (vx (mesh_position m)) 1) \<bar>rotation_z m\<bar>)
                   (vy (mesh_position m)) (fsub (vz (mesh_position m)) 1))
          (Vector3 (fadd (fadd (vx (mesh_position m)) 1) \<bar>rotation_z m\<bar>)
                   (fadd (vy (mesh_position m)) 3) (fadd (vz (mesh_position m)) 1))"

text \<open>
  Closed examples for the collision detector: the player the constructor builds when
  meshes are measured by \<open>cuboidAt\<close>; the mesh of a new player after moveLeft(), the
  same mesh after returnToCenter(), and the player that
  \<open>new Player(); moveLeft(); returnToCenter()\<close> leaves when meshes are measured by
  \<open>tiltedCuboidAt\<close>, whose collider is still the one moveLeft() computed; an obstacle
  with no collider and one whose collider overlaps the first player's; and a manager
  holding both as active.
\<close>

definition examplePlayer :: player where
  "examplePlayer =
     Player_fields\<lparr>mesh := Some (createMesh (Vector3 0 0 5)),
                    collider := Some (playerBox cuboidAt (createMesh (Vector3 0 0 5)))\<rparr>"

definition leanedMesh :: pmesh where
  "leanedMesh = (createMesh (Vector3 (- rnd (3 / 10)) 0 5))\<lparr>rotation_z := rnd (5 / 100)\<rparr>"

definition settledMesh :: pmesh where
  "settledMesh = leanedMesh\<lparr>rotation_z := fsub (rnd (5 / 100)) (rnd (1 / 100))\<rparr>"

definition stalePlayer :: player where
  "stalePlayer =
     Player_fields\<lparr>mesh := Some settledMesh,
                    collider := Some (playerBox tiltedCuboidAt leanedMesh)\<rparr>"

definition bareObstacle :: obstacle where
  "bareObstacle = newObstacle (Some ''rock'')"

definition nearObstacle :: obstacle where
  "nearObstacle =
     (newObstacle (Some ''rock''))
       \<lparr>ocollider := Some (Box3 (Vector3 (- 1) 0 4) (Vector3 1 1 6)), active := True\<rparr>"

definition exampleManager :: obstacleManager where
  "exampleManager =
     ObstacleManager_fields\<lparr>objs := [bareObstacle, nearObstacle], activeObstacles := [0, 1]\<rparr>"


section \<open>Properties of the rounding\<close>

lemma bitlen_one: "bitlen 1 = 1"
  by (subst compute_bitlen) simp

lemma bitlen_Bit0: "bitlen (numeral (Num.Bit0 k)) = bitlen (numeral k) + 1"
  by (subst compute_bitlen) simp

lemma bitlen_Bit1: "bitlen (numeral (Num.Bit1 k)) = bitlen (numeral k) + 1"
  by (subst compute_bitlen) simp

lemma two_powi_eval: "(2::real) powi k = (if 0 \<le> k then 2 ^ nat k else 1 / 2 ^ nat (- k))"
  unfolding power_int_def by (simp add: power_inverse inverse_eq_divide power_one_over)




lemma two_pow_le_real: "(2::int) ^ k \<le> n \<Longrightarrow> (2::real) ^ k \<le> real_of_int n"
  using of_int_le_iff [of "2 ^ k" n, where ?'a = real] by simp

lemma le_two_pow_real: "n \<le> (2::int) ^ k \<Longrightarrow> real_of_int n \<le> (2::real) ^ k"
  using of_int_le_iff [of n "2 ^ k", where ?'a = real] by simp

lemma recip_le: "0 < x \<Longrightarrow> 0 < p \<Longrightarrow> 1 / x \<le> p \<Longrightarrow> 1 / p \<le> (x::real)"
  by (simp add: field_simps)

lemma recip_less: "0 < x \<Longrightarrow> 0 < p \<Longrightarrow> p < 1 / x \<Longrightarrow> x < 1 / (p::real)"
  by (simp add: field_simps)

lemma ilog2_bounds:
  assumes "0 < x"
  shows "2 powi ilog2 x \<le> x" and "x < 2 powi (ilog2 x + 1)"
proof -
  have "2 powi ilog2 x \<le> x \<and> x < 2 powi (ilog2 x + 1)"
  proof (cases "1 \<le> x")
    case True
    define n where "n = \<lfloor>x\<rfloor>"
    have n: "1 \<le> n" using True by (simp add: n_def)
    then have b: "1 \<le> bitlen n" by (simp add: bitlen_ge_iff_power)
    have bb: "2 ^ nat (bitlen n - 1) \<le> n" "n < 2 ^ nat (bitlen n)"
      using bitlen_bounds [of n] n by auto
    have e: "ilog2 x = bitlen n - 1" using True by (simp add: ilog2_def n_def)
    have p1: "(2::real) powi (bitlen n - 1) = 2 ^ nat (bitlen n - 1)"
      using b by (simp add: power_int_nonneg_exp)
    have "real_of_int n \<le> x" by (simp add: n_def)
    with two_pow_le_real [OF bb(1)] have lo: "2 powi ilog2 x \<le> x" unfolding e p1 by linarith
    have x1: "x < real_of_int (n + 1)" by (simp add: n_def)
    have "n + 1 \<le> 2 ^ nat (bitlen n)" using bb(2) by simp
    from le_two_pow_real [OF this] x1 have "x < 2 ^ nat (bitlen n)" by linarith
    moreover have "(2::real) powi (bitlen n - 1 + 1) = 2 ^ nat (bitlen n)"
      using b by (simp add: power_int_nonneg_exp)
    ultimately have "x < 2 powi (ilog2 x + 1)" unfolding e by linarith
    with lo show ?thesis by simp
  next
    case False
    define m where "m = \<lceil>1 / x\<rceil>"
    define c where "c = bitlen (m - 1)"
    have y: "1 < 1 / x" using False assms by simp
    then have m: "2 \<le> m" unfolding m_def by linarith
    then have b: "1 \<le> c" by (simp add: bitlen_ge_iff_power c_def)
    have bb: "2 ^ nat (c - 1) \<le> m - 1" "m - 1 < 2 ^ nat c"
      using bitlen_bounds [of "m - 1"] m by (auto simp: c_def)
    have e: "ilog2 x = - c" using False by (simp add: ilog2_def m_def c_def)
    have y1: "1 / x \<le> real_of_int m" by (simp add: m_def)
    have y2: "real_of_int (m - 1) < 1 / x" unfolding m_def by linarith
    have "m \<le> 2 ^ nat c" using bb(2) by simp
    from le_two_pow_real [OF this] y1 have "1 / x \<le> 2 ^ nat c" by linarith
    from recip_le [OF assms _ this] have "1 / 2 ^ nat c \<le> x" by simp
    then have lo: "2 powi (- c) \<le> x"
      using b by (simp add: power_int_minus_divide power_int_nonneg_exp)
    from two_pow_le_real [OF bb(1)] y2 have "2 ^ nat (c - 1) < 1 / x" by linarith
    from recip_less [OF assms _ this] have "x < 1 / 2 ^ nat (c - 1)" by simp
    moreover have "(2::real) powi (- c + 1) = 1 / 2 ^ nat (c - 1)"
      using b power_int_minus_divide [of "2::real" "c - 1"] by (simp add: power_int_nonneg_exp)
    ultimately have "x < 2 powi (- c + 1)" by linarith
    with lo show ?thesis unfolding e by blast
  qed
  then show "2 powi ilog2 x \<le> x" and "x < 2 powi (ilog2 x + 1)" by simp_all
qed


lemma two_powi_less_cancel: "(2::real) powi m < 2 powi n \<Longrightarrow> m < n"
  using power_int_increasing [of n m "2::real"] by (cases "m < n") auto

lemma ilog2_unique:
  assumes "0 < x" "2 powi k \<le> x" "x < 2 powi (k + 1)"
  shows "ilog2 x = k"
proof -
  have "2 powi ilog2 x < (2::real) powi (k + 1)"
    using ilog2_bounds(1) [OF assms(1)] assms(3) by linarith
  then have a: "ilog2 x < k + 1"
    by (rule two_powi_less_cancel)
  have "2 powi k < (2::real) powi (ilog2 x + 1)"
    using ilog2_bounds(2) [OF assms(1)] assms(2) by linarith
  then have "k < ilog2 x + 1"
    by (rule two_powi_less_cancel)
  with a show ?thesis by simp
qed

lemma round_half_even_of_int [simp]: "round_half_even (real_of_int n) = n"
  by (simp add: round_half_even_def)

lemma round_half_even_cases:
  fixes y :: real and f :: int
  assumes "f = \<lfloor>y\<rfloor>"
  shows "round_half_even y = f \<or> round_half_even y = f + 1"
  unfolding round_half_even_def assms [symmetric] by simp

lemma round_half_even_same_floor:
  fixes x y :: real and f :: int
  assumes "\<lfloor>x\<rfloor> = f" "\<lfloor>y\<rfloor> = f" "x \<le> y"
  shows "round_half_even x \<le> round_half_even y"
  unfolding round_half_even_def assms(1) assms(2) using assms(3) by simp

lemma round_half_even_mono:
  assumes "x \<le> y"
  shows "round_half_even x \<le> round_half_even y"
proof (cases "\<lfloor>x\<rfloor> = \<lfloor>y\<rfloor>")
  case True
  then show ?thesis using assms round_half_even_same_floor by blast
next
  case False
  then have "\<lfloor>x\<rfloor> + 1 \<le> \<lfloor>y\<rfloor>" using floor_mono [OF assms] by simp
  moreover have "round_half_even x \<le> \<lfloor>x\<rfloor> + 1"
    using round_half_even_cases [of "\<lfloor>x\<rfloor>" x] by auto
  moreover have "\<lfloor>y\<rfloor> \<le> round_half_even y"
    using round_half_even_cases [of "\<lfloor>y\<rfloor>" y] by auto
  ultimately show ?thesis by simp
qed

lemma round_half_even_minus: "round_half_even (- y) = - round_half_even y"
proof (cases "y = real_of_int \<lfloor>y\<rfloor>")
  case True
  then obtain n where "y = real_of_int n" by blast
  then show ?thesis by (simp flip: of_int_minus)
next
  case False
  then have f: "\<lfloor>- y\<rfloor> = - \<lfloor>y\<rfloor> - 1"
    by linarith
  show ?thesis unfolding round_half_even_def f using False
    by simp
qed

lemma ulp_pos: "0 < ulp x"
  by (simp add: ulp_def)

lemma ulp_minus: "ulp (- x) = ulp x"
  by (simp add: ulp_def fexp_def)

lemma two_powi_split: "(2::real) powi (e + 1) = 2 ^ 53 * 2 powi (e - 52)"
proof -
  have "(2::real) powi (53 + (e - 52)) = 2 powi 53 * 2 powi (e - 52)"
    by (rule power_int_add) simp
  then show ?thesis by (simp add: algebra_simps)
qed

lemma two_powi_split': "(2::real) powi e = 2 ^ 52 * 2 powi (e - 52)"
proof -
  have "(2::real) powi (52 + (e - 52)) = 2 powi 52 * 2 powi (e - 52)"
    by (rule power_int_add) simp
  then show ?thesis by (simp add: algebra_simps)
qed

lemma fexp_mono_pos:
  assumes "0 < x" "x \<le> y"
  shows "fexp x \<le> fexp y"
proof -
  have "2 powi ilog2 x \<le> x" using assms(1) by (rule ilog2_bounds)
  moreover have "y < 2 powi (ilog2 y + 1)" using assms by (intro ilog2_bounds) simp
  ultimately have "(2::real) powi ilog2 x < 2 powi (ilog2 y + 1)" using assms(2) by linarith
  then have "ilog2 x < ilog2 y + 1" by (rule two_powi_less_cancel)
  then show ?thesis using assms by (simp add: fexp_def)
qed

lemma rnd_pos_upper:
  assumes "0 < x"
  shows "rnd x \<le> 2 powi (fexp x + 1)"
proof -
  have "x < 2 powi (ilog2 x + 1)" using assms by (rule ilog2_bounds)
  also have "\<dots> \<le> 2 powi (fexp x + 1)"
    using assms by (intro power_int_increasing) (simp_all add: fexp_def)
  finally have "x < 2 ^ 53 * ulp x" by (simp add: two_powi_split ulp_def)
  then have "x / ulp x \<le> real_of_int (2 ^ 53)"
    using ulp_pos [of x] by (simp add: field_simps)
  then have "round_half_even (x / ulp x) \<le> 2 ^ 53"
    using round_half_even_mono round_half_even_of_int by metis
  then have "real_of_int (round_half_even (x / ulp x)) \<le> 2 ^ 53"
    using le_two_pow_real by blast
  then have "real_of_int (round_half_even (x / ulp x)) * ulp x \<le> 2 ^ 53 * ulp x"
    using ulp_pos [of x] by (simp add: mult_right_mono)
  then show ?thesis using assms by (simp add: rnd_def two_powi_split ulp_def)
qed

lemma rnd_pos_lower:
  assumes "0 < x" "- 1022 \<le> ilog2 x"
  shows "2 powi fexp x \<le> rnd x"
proof -
  have e: "fexp x = ilog2 x" using assms by (simp add: fexp_def)
  have "2 powi fexp x \<le> x" unfolding e using assms(1) by (rule ilog2_bounds)
  then have "2 ^ 52 * ulp x \<le> x" using two_powi_split' [of "fexp x"] by (simp add: ulp_def)
  then have "real_of_int (2 ^ 52) \<le> x / ulp x"
    using ulp_pos [of x] by (simp add: field_simps)
  then have "2 ^ 52 \<le> round_half_even (x / ulp x)"
    using round_half_even_mono round_half_even_of_int by metis
  then have "2 ^ 52 \<le> real_of_int (round_half_even (x / ulp x))"
    using two_pow_le_real by blast
  then have "2 ^ 52 * ulp x \<le> real_of_int (round_half_even (x / ulp x)) * ulp x"
    using ulp_pos [of x] by (simp add: mult_right_mono)
  then show ?thesis using assms two_powi_split' [of "fexp x"] by (simp add: rnd_def ulp_def)
qed

lemma rnd_zero [simp]: "rnd 0 = 0"
  by (simp add: rnd_def)

lemma rnd_minus: "rnd (- x) = - rnd x"
  by (simp add: rnd_def ulp_minus round_half_even_minus)

lemma rnd_nonneg:
  assumes "0 \<le> x"
  shows "0 \<le> rnd x"
proof -
  have "0 \<le> x / ulp x" using assms ulp_pos [of x] by simp
  then have "round_half_even (real_of_int 0) \<le> round_half_even (x / ulp x)"
    by (intro round_half_even_mono) simp
  then have "0 \<le> round_half_even (x / ulp x)"
    unfolding round_half_even_of_int .
  then show ?thesis using ulp_pos [of x] by (simp add: rnd_def)
qed

lemma rnd_mono_pos:
  assumes "0 < x" "x \<le> y"
  shows "rnd x \<le> rnd y"
proof (cases "fexp x = fexp y")
  case True
  then have u: "ulp x = ulp y" by (simp add: ulp_def)
  have "x / ulp y \<le> y / ulp y" using assms(2) ulp_pos [of y] by (simp add: divide_right_mono)
  then have "round_half_even (x / ulp y) \<le> round_half_even (y / ulp y)"
    by (rule round_half_even_mono)
  then have "real_of_int (round_half_even (x / ulp y)) * ulp y
      \<le> real_of_int (round_half_even (y / ulp y)) * ulp y"
    using ulp_pos [of y] by (simp add: mult_right_mono)
  then show ?thesis using assms by (simp add: rnd_def u)
next
  case False
  have y: "0 < y" using assms by simp
  have lt: "fexp x < fexp y" using False fexp_mono_pos [OF assms] by simp
  then have n: "- 1022 \<le> ilog2 y" using y by (simp add: fexp_def max_def split: if_splits)
  have "rnd x \<le> 2 powi (fexp x + 1)" using assms(1) by (rule rnd_pos_upper)
  also have "\<dots> \<le> 2 powi fexp y" using lt by (intro power_int_increasing) simp_all
  also have "\<dots> \<le> rnd y" using y n by (rule rnd_pos_lower)
  finally show ?thesis .
qed

lemma rnd_mono:
  assumes "x \<le> y"
  shows "rnd x \<le> rnd y"
proof -
  consider "0 < x" | "y < 0" | "x \<le> 0" "0 \<le> y" by linarith
  then show ?thesis
  proof cases
    case 1
    then show ?thesis using assms by (rule rnd_mono_pos)
  next
    case 2
    then have "rnd (- y) \<le> rnd (- x)" using assms by (intro rnd_mono_pos) simp_all
    then show ?thesis by (simp add: rnd_minus)
  next
    case 3
    have "0 \<le> rnd (- x)" using 3(1) by (intro rnd_nonneg) simp
    then have "rnd x \<le> 0" by (simp add: rnd_minus)
    moreover have "0 \<le> rnd y" using 3(2) by (rule rnd_nonneg)
    ultimately show ?thesis by simp
  qed
qed

lemma quot_eq:
  fixes u r c :: real
  assumes "0 < u" "r = c * u"
  shows "r / u = c"
  using assms by simp

lemma rnd_idem_pos:
  assumes "0 < x"
  shows "rnd (rnd x) = rnd x"
proof (cases "rnd x = 0")
  case True
  then show ?thesis by simp
next
  case False
  define m where "m = round_half_even (x / ulp x)"
  define r where "r = rnd x"
  have r: "r = real_of_int m * ulp x" using assms by (simp add: r_def rnd_def m_def)
  have rpos: "0 < r" using False rnd_nonneg [of x] assms by (simp add: r_def)
  have up: "r \<le> 2 powi (fexp x + 1)" unfolding r_def using assms by (rule rnd_pos_upper)
  show ?thesis
  proof (cases "r = 2 powi (fexp x + 1)")
    case True
    have "r < 2 powi (fexp x + 1 + 1)"
      unfolding True by (intro power_int_strict_increasing) simp_all
    then have "ilog2 r = fexp x + 1" using rpos True by (intro ilog2_unique) simp_all
    moreover have "- 1022 \<le> fexp x" by (simp add: fexp_def)
    ultimately have fe: "fexp r = fexp x + 1" using rpos by (simp add: fexp_def)
    have ur: "ulp r = 2 powi (fexp x + 1 - 52)" by (simp only: ulp_def fe)
    have "r = 2 powi (fexp x + 1)" by (fact True)
    also have "\<dots> = 2 ^ 52 * 2 powi (fexp x + 1 - 52)" by (rule two_powi_split')
    also have "\<dots> = real_of_int (2 ^ 52) * ulp r" by (simp only: ur of_int_power of_int_numeral)
    finally have q: "r = real_of_int (2 ^ 52) * ulp r" .
    have "r / ulp r = real_of_int (2 ^ 52)" using ulp_pos [of r] q by (rule quot_eq)
    then have "round_half_even (r / ulp r) = 2 ^ 52"
      by (simp only: round_half_even_of_int)
    then have "rnd r = real_of_int (2 ^ 52) * ulp r" using rpos by (simp only: rnd_def) simp
    then show ?thesis using q by (simp only: r_def)
  next
    case False
    then have lt: "r < 2 powi (fexp x + 1)" using up by simp
    have fe: "fexp r = fexp x"
    proof (cases "- 1022 \<le> ilog2 x")
      case True
      then have e: "fexp x = ilog2 x" using assms by (simp add: fexp_def)
      have "2 powi fexp x \<le> r" unfolding r_def using assms True by (rule rnd_pos_lower)
      then have "ilog2 r = fexp x" using rpos lt by (intro ilog2_unique) simp_all
      then show ?thesis using rpos True e by (simp add: fexp_def)
    next
      case False
      then have e: "fexp x = - 1022" using assms by (simp add: fexp_def)
      have "2 powi ilog2 r \<le> r" using rpos by (rule ilog2_bounds)
      then have "(2::real) powi ilog2 r < 2 powi (fexp x + 1)" using lt by linarith
      then have "ilog2 r < fexp x + 1" by (rule two_powi_less_cancel)
      then show ?thesis using rpos e by (simp add: fexp_def)
    qed
    then have u: "ulp r = ulp x" by (simp add: ulp_def)
    have q: "r = real_of_int m * ulp r" by (simp only: u r [symmetric])
    have "r / ulp r = real_of_int m" using ulp_pos [of r] q by (rule quot_eq)
    then have "round_half_even (r / ulp r) = m"
      by (simp only: round_half_even_of_int)
    then have "rnd r = real_of_int m * ulp r" using rpos by (simp only: rnd_def) simp
    then show ?thesis using q by (simp only: r_def)
  qed
qed

lemma rnd_idem [simp]: "rnd (rnd x) = rnd x"
proof -
  consider "0 < x" | "x = 0" | "x < 0" by linarith
  then show ?thesis
  proof cases
    case 1
    then show ?thesis by (rule rnd_idem_pos)
  next
    case 2
    then show ?thesis by simp
  next
    case 3
    then have "rnd (rnd (- x)) = rnd (- x)" by (intro rnd_idem_pos) simp
    then show ?thesis by (simp add: rnd_minus)
  qed
qed


subsection \<open>Evaluating the rounding on literals\<close>

lemmas rnd_eval =
  rnd_def [of "numeral a / numeral b"] rnd_def [of "- (numeral a / numeral b)"]
  rnd_def [of "numeral a"] rnd_def [of "- numeral a"] rnd_def [of 1] rnd_def [of "- 1"]
  rnd_def [of "1 / numeral b"] rnd_def [of "- (1 / numeral b)"]
  for a b

lemmas float_eval = rnd_eval ulp_def fexp_def ilog2_def round_half_even_def
  fadd_def fsub_def fmul_def fdiv_def bitlen_one bitlen_Bit0 bitlen_Bit1 two_powi_eval

lemma double_literals:
  "rnd (15 / 100) = 5404319552844595 / 36028797018963968"
  "rnd (5 / 1000) = 5764607523034235 / 1152921504606846976"
  "rnd (3 / 10) = 5404319552844595 / 18014398509481984"
  "rnd (2 / 10) = 3602879701896397 / 18014398509481984"
  "rnd (5 / 100) = 3602879701896397 / 72057594037927936"
  "rnd (1 / 100) = 5764607523034235 / 576460752303423488"
  "rnd (8 / 10) = 3602879701896397 / 4503599627370496"
  "rnd (1 / 100000) = 5902958103587057 / 590295810358705651712"
  "rnd (1 / 10) = 3602879701896397 / 36028797018963968"
  by (simp_all add: float_eval)

section \<open>Player: general facts\<close>

lemma iterate_numeral: "iterate (numeral k) f a = iterate (pred_numeral k) f (f a)"
  by (simp add: numeral_eq_Suc)

lemma iterate_add: "iterate (m + n) f a = iterate n f (iterate m f a)"
  by (induction m arbitrary: a) simp_all

lemma iterate_fixed: "f a = a \<Longrightarrow> iterate n f a = a"
  by (induction n) simp_all

lemma updateCollider_Some:
  "mesh p = Some m \<Longrightarrow>
   updateCollider sfo p = Some (p\<lparr>collider := Some (playerBox sfo m)\<rparr>)"
  by (simp add: updateCollider_def)

lemma Player_new_Some:
  "Player_new sfo =
     Some (Player_fields\<lparr>mesh := Some (createMesh (Vector3 0 0 5)),
                         collider := Some (playerBox sfo (createMesh (Vector3 0 0 5)))\<rparr>)"
  by (simp add: Player_new_def createPlayer_def updateCollider_def Player_fields_def)

section \<open>ObstacleManager: what each operation leaves alone\<close>

lemma settings_eqD:
  assumes "settings a = settings b"
  shows "obstacleTypes a = obstacleTypes b" "spawnDistance a = spawnDistance b"
    "minSpawnInterval a = minSpawnInterval b" "maxSpawnInterval a = maxSpawnInterval b"
    "initialSpeed a = initialSpeed b" "speedIncreaseRate a = speedIncreaseRate b"
  using assms by (simp_all add: settings_def)

lemma timing_eqD:
  assumes "timing a = timing b"
  shows "nextSpawnTime a = nextSpawnTime b" "timeSinceLastSpawn a = timeSinceLastSpawn b"
    "speed a = speed b"
  using assms by (simp_all add: timing_def)

lemma createObstacle_frame:
  "settings (snd (createObstacle ty s)) = settings s"
  "timing (snd (createObstacle ty s)) = timing s"
  by (simp_all add: createObstacle_def settings_def timing_def)

lemma preloadObstacles_frame:
  "settings (preloadObstacles rs n s) = settings s \<and> timing (preloadObstacles rs n s) = timing s
   \<and> activeObstacles (preloadObstacles rs n s) = activeObstacles s"
  by (induction n arbitrary: rs s) (simp_all add: createObstacle_def settings_def timing_def)

lemma spawnObstacle_frame:
  "settings (spawnObstacle sfo d s) = settings s \<and> timing (spawnObstacle sfo d s) = timing s"
  by (simp add: spawnObstacle_def createObstacle_def settings_def timing_def Let_def)

lemma moveObstacle_frame:
  "settings (moveObstacle sfo i s) = settings s \<and> timing (moveObstacle sfo i s) = timing s"
  by (simp add: moveObstacle_def settings_def timing_def Let_def)

lemma moveObstacles_frame:
  "settings (moveObstacles sfo n s) = settings s \<and> timing (moveObstacles sfo n s) = timing s"
  by (induction n arbitrary: s) (simp_all add: moveObstacle_frame)

lemmas spawnObstacle_fields =
  settings_eqD [OF conjunct1 [OF spawnObstacle_frame]]
  timing_eqD [OF conjunct2 [OF spawnObstacle_frame]]

lemmas moveObstacles_fields =
  settings_eqD [OF conjunct1 [OF moveObstacles_frame]]
  timing_eqD [OF conjunct2 [OF moveObstacles_frame]]

lemma deactivate_all_frame:
  "settings (foldl deactivate s xs) = settings s \<and> timing (foldl deactivate s xs) = timing s
   \<and> activeObstacles (foldl deactivate s xs) = activeObstacles s
   \<and> obstaclePool (foldl deactivate s xs) = obstaclePool s @ xs
   \<and> length (objs (foldl deactivate s xs)) = length (objs s)"
  by (induction xs arbitrary: s) (simp_all add: deactivate_def settings_def timing_def)

lemma ObstacleManager_update_frame:
  "settings (ObstacleManager_update sfo dt score d s) = settings s"
  unfolding settings_def
  by (simp add: ObstacleManager_update_def Let_def moveObstacles_fields spawnObstacle_fields)

lemma ObstacleManager_reset_frame:
  "settings (ObstacleManager_reset r s) = settings s"
  using deactivate_all_frame [of s "activeObstacles s"]
  by (simp add: ObstacleManager_reset_def Let_def settings_def)

lemma manager_calls_frame:
  "settings (manager_calls sfo cs s) = settings s"
  by (induction sfo cs s rule: manager_calls.induct)
     (simp_all add: ObstacleManager_update_frame ObstacleManager_reset_frame)

lemma ObstacleManager_new_settings:
  "settings (ObstacleManager_new r0 rs)
     = ([''rock'', ''log'', ''tree'', ''puddle'', ''barrier''], 80, 3 / 2, 3,
        rnd (2 / 10), rnd (1 / 100000))"
  using preloadObstacles_frame [of rs 10]
  by (simp add: ObstacleManager_new_def) (simp add: settings_def ObstacleManager_fields_def)

section \<open>CollisionDetector: general facts\<close>

lemma intersectsBox_iff:
  "intersectsBox a b \<longleftrightarrow>
     vx (bmin a) \<le> vx (bmax b) \<and> vx (bmin b) \<le> vx (bmax a)
     \<and> vy (bmin a) \<le> vy (bmax b) \<and> vy (bmin b) \<le> vy (bmax a)
     \<and> vz (bmin a) \<le> vz (bmax b) \<and> vz (bmin b) \<le> vz (bmax a)"
  by (auto simp: intersectsBox_def)

lemma scanObstacles_Some:
  assumes "collider (player d) = Some pb"
  shows "scanObstacles d obs
     = Some (\<exists>ob \<in> set obs. \<exists>b. ocollider ob = Some b \<and> intersectsBox pb b)"
  using assms
  by (induction obs) (auto simp: checkObstacleCollision_def bind_opt_def split: option.splits)

lemma checkCollisions_absent:
  assumes "mesh (player d) = None \<or> collider (player d) = None"
  shows "checkCollisions sfo d = Some (False, d)"
  using assms by (simp add: checkCollisions_def)

lemma checkCollisions_present:
  assumes "mesh (player d) = Some m" "collider (player d) = Some c"
  shows "checkCollisions sfo d
     = Some ((\<exists>ob \<in> set (activeRecords (obstacles d)).
                \<exists>b. ocollider ob = Some b \<and> intersectsBox (playerBox sfo m) b),
             d\<lparr>player := (player d)\<lparr>collider := Some (playerBox sfo m)\<rparr>\<rparr>)"
proof -
  define d1 where "d1 = d\<lparr>player := (player d)\<lparr>collider := Some (playerBox sfo m)\<rparr>\<rparr>"
  have c1: "collider (player d1) = Some (playerBox sfo m)" by (simp add: d1_def)
  have o: "obstacles d1 = obstacles d" by (simp add: d1_def)
  show ?thesis
    using assms scanObstacles_Some [OF c1, of "activeRecords (obstacles d)"]
    unfolding d1_def [symmetric]
    by (simp add: checkCollisions_def updateCollider_def bind_opt_def Let_def d1_def [symmetric] o)
qed

lemma example_boxes:
  "playerBox cuboidAt (createMesh (Vector3 0 0 5))
     = Box3 (Vector3 (- (3602879701896397 / 4503599627370496))
                     (337769972052787 / 1125899906842624)
                     (4728779608739021 / 1125899906842624))
            (Vector3 (3602879701896397 / 4503599627370496)
                     (3039929748475085 / 1125899906842624)
                     (6530219459687219 / 1125899906842624))"
  "playerBox cuboidAt (createMesh (Vector3 1 0 5))
     = Box3 (Vector3 (900719925474099 / 4503599627370496)
                     (337769972052787 / 1125899906842624)
                     (4728779608739021 / 1125899906842624))
            (Vector3 (8106479329266893 / 4503599627370496)
                     (3039929748475085 / 1125899906842624)
                     (6530219459687219 / 1125899906842624))"
  unfolding playerBox_def double_literals
  by (simp_all add: cuboidAt_def createMesh_def Vector3_def Box3_def scaledBox_def getSize_def
      getCenter_def isEmpty_def Let_def float_eval)



lemma example_fields:
  "mesh examplePlayer = Some (createMesh (Vector3 0 0 5))"
  "collider examplePlayer = Some (playerBox cuboidAt (createMesh (Vector3 0 0 5)))"
  "mesh stalePlayer = Some settledMesh"
  "collider stalePlayer = Some (playerBox tiltedCuboidAt leanedMesh)"
  "mesh Player_fields = None"
  "activeRecords exampleManager = [bareObstacle, nearObstacle]"
  "ocollider bareObstacle = None"
  "ocollider nearObstacle = Some (Box3 (Vector3 (- 1) 0 4) (Vector3 1 1 6))"
  by (simp_all add: examplePlayer_def stalePlayer_def Player_fields_def activeRecords_def
      exampleManager_def ObstacleManager_fields_def bareObstacle_def nearObstacle_def
      newObstacle_def split: prod.splits)

lemma example_overlap:
  "intersectsBox (playerBox cuboidAt (createMesh (Vector3 0 0 5)))
     (Box3 (Vector3 (- 1) 0 4) (Vector3 1 1 6))"
  unfolding example_boxes by (simp add: intersectsBox_def Box3_def Vector3_def)



section \<open>Player: jump\<close>

text \<open>
  C6. jump() on a grounded player sets the phase to Ascending and the vertical velocity
  to jumpForce, changing nothing else; in any other phase it leaves the player as it is.
\<close>

theorem jump_from_ground_else_noop:
  "(phaseOf p = Grounded \<longrightarrow>
      jump p = p\<lparr>isJumping := True, jumpVelocity := jumpForce p\<rparr>
      \<and> phaseOf (jump p) = Ascending \<and> jumpVelocity (jump p) = jumpForce p)
   \<and> (phaseOf p \<noteq> Grounded \<longrightarrow> jump p = p)"
  by (auto simp: jump_def phaseOf_def split: if_splits)

theorem jump_from_ground_else_noop_witness:
  "phaseOf Player_fields = Grounded
   \<and> phaseOf (jump Player_fields) = Ascending
   \<and> jumpVelocity (jump Player_fields) = jumpForce Player_fields
   \<and> phaseOf (Player_fields\<lparr>isFalling := True\<rparr>) \<noteq> Grounded
   \<and> jump (Player_fields\<lparr>isFalling := True\<rparr>) = Player_fields\<lparr>isFalling := True\<rparr>"
  using jump_from_ground_else_noop [of Player_fields]
    jump_from_ground_else_noop [of "Player_fields\<lparr>isFalling := True\<rparr>"]
  by (simp add: phaseOf_def Player_fields_def)

section \<open>Player: lateral moves\<close>

lemma moveLeft_lateral:
  assumes "mesh p = Some m"
  shows "\<exists>p' m'. moveLeft sfo p = Some p' \<and> mesh p' = Some m'
     \<and> vx (mesh_position m')
         = stepLeft (maxLateralPosition p) (lateralSpeed p) (vx (mesh_position m))
     \<and> maxLateralPosition p' = maxLateralPosition p \<and> lateralSpeed p' = lateralSpeed p"
  using assms by (simp add: moveLeft_def stepLeft_def updateCollider_Some)

lemma moveRight_lateral:
  assumes "mesh p = Some m"
  shows "\<exists>p' m'. moveRight sfo p = Some p' \<and> mesh p' = Some m'
     \<and> vx (mesh_position m')
         = stepRight (maxLateralPosition p) (lateralSpeed p) (vx (mesh_position m))
     \<and> maxLateralPosition p' = maxLateralPosition p \<and> lateralSpeed p' = lateralSpeed p"
  using assms by (simp add: moveRight_def stepRight_def updateCollider_Some)

lemma moveLeft_repeated:
  assumes "mesh p = Some m"
  shows "\<exists>p' m'. apply_calls sfo (replicate n MoveLeft) p = Some p' \<and> mesh p' = Some m'
     \<and> vx (mesh_position m')
         = iterate n (stepLeft (maxLateralPosition p) (lateralSpeed p)) (vx (mesh_position m))"
  using assms
proof (induction n arbitrary: p m)
  case 0
  then show ?case by simp
next
  case (Suc n)
  from moveLeft_lateral [OF Suc.prems, of sfo] obtain p1 m1 where
    s: "moveLeft sfo p = Some p1" "mesh p1 = Some m1"
       "vx (mesh_position m1)
          = stepLeft (maxLateralPosition p) (lateralSpeed p) (vx (mesh_position m))"
       "maxLateralPosition p1 = maxLateralPosition p" "lateralSpeed p1 = lateralSpeed p"
    by blast
  from Suc.IH [OF s(2)] s show ?case by (simp add: bind_opt_def)
qed

lemma moveRight_repeated:
  assumes "mesh p = Some m"
  shows "\<exists>p' m'. apply_calls sfo (replicate n MoveRight) p = Some p' \<and> mesh p' = Some m'
     \<and> vx (mesh_position m')
         = iterate n (stepRight (maxLateralPosition p) (lateralSpeed p)) (vx (mesh_position m))"
  using assms
proof (induction n arbitrary: p m)
  case 0
  then show ?case by simp
next
  case (Suc n)
  from moveRight_lateral [OF Suc.prems, of sfo] obtain p1 m1 where
    s: "moveRight sfo p = Some p1" "mesh p1 = Some m1"
       "vx (mesh_position m1)
          = stepRight (maxLateralPosition p) (lateralSpeed p) (vx (mesh_position m))"
       "maxLateralPosition p1 = maxLateralPosition p" "lateralSpeed p1 = lateralSpeed p"
    by blast
  from Suc.IH [OF s(2)] s show ?case by (simp add: bind_opt_def)
qed

text \<open>
  Ten steps of 0.3 from 0 do not reach 3: the tenth lands one unit in the last place
  short of it, so the guard lets an eleventh step through.
\<close>

lemma ten_steps_left:
  "iterate 10 (stepLeft 3 (5404319552844595 / 18014398509481984)) 0
     = - (6755399441055743 / 2251799813685248)"
  by (simp add: iterate_numeral stepLeft_def float_eval)

lemma eleven_steps_left:
  "iterate 11 (stepLeft 3 (5404319552844595 / 18014398509481984)) 0
     = - (7430939385161317 / 2251799813685248)"
  by (simp add: iterate_numeral stepLeft_def float_eval)

lemma ten_steps_right:
  "iterate 10 (stepRight 3 (5404319552844595 / 18014398509481984)) 0
     = 6755399441055743 / 2251799813685248"
  by (simp add: iterate_numeral stepRight_def float_eval)

lemma eleven_steps_right:
  "iterate 11 (stepRight 3 (5404319552844595 / 18014398509481984)) 0
     = 7430939385161317 / 2251799813685248"
  by (simp add: iterate_numeral stepRight_def float_eval)

text \<open>
  C4. From the lateral offset 0 of a new player, moveLeft() is meant never to take the
  offset below -maxLateralPosition = -3, and moveRight() never above 3, a step being
  refused when it would leave that range. The code does not keep this: after ten calls
  of moveLeft() the offset is -2.9999999999999996 (still inside the edge), the eleventh
  call is applied, and the offset becomes -3.2999999999999994; moveRight() mirrors it.
\<close>

theorem lateral_moves_overshoot_edge:
  "\<exists>p0 l10 l11 r10 r11.
     Player_new sfo = Some p0 \<and> lateralOffset p0 = Some 0 \<and> maxLateralPosition p0 = 3
     \<and> apply_calls sfo (replicate 10 MoveLeft) p0 = Some l10
     \<and> lateralOffset l10 = Some (- (6755399441055743 / 2251799813685248))
     \<and> apply_calls sfo (replicate 11 MoveLeft) p0 = Some l11
     \<and> lateralOffset l11 = Some (- (7430939385161317 / 2251799813685248))
     \<and> - (7430939385161317 / 2251799813685248) < - maxLateralPosition p0
     \<and> apply_calls sfo (replicate 10 MoveRight) p0 = Some r10
     \<and> lateralOffset r10 = Some (6755399441055743 / 2251799813685248)
     \<and> apply_calls sfo (replicate 11 MoveRight) p0 = Some r11
     \<and> lateralOffset r11 = Some (7430939385161317 / 2251799813685248)
     \<and> maxLateralPosition p0 < 7430939385161317 / 2251799813685248"
proof -
  define p0 where "p0 = Player_fields\<lparr>mesh := Some (createMesh (Vector3 0 0 5)),
      collider := Some (playerBox sfo (createMesh (Vector3 0 0 5)))\<rparr>"
  have n: "Player_new sfo = Some p0" unfolding p0_def by (rule Player_new_Some)
  have m: "mesh p0 = Some (createMesh (Vector3 0 0 5))" by (simp add: p0_def)
  have x: "vx (mesh_position (createMesh (Vector3 0 0 5))) = 0"
    by (simp add: createMesh_def Vector3_def)
  have c: "maxLateralPosition p0 = 3" "lateralSpeed p0 = 5404319552844595 / 18014398509481984"
    unfolding p0_def Player_fields_def double_literals by simp_all
  have o: "lateralOffset p0 = Some 0" by (simp add: lateralOffset_def m x)
  from moveLeft_repeated [OF m, of sfo 10] obtain l10 where
    l10: "apply_calls sfo (replicate 10 MoveLeft) p0 = Some l10"
      "lateralOffset l10 = Some (- (6755399441055743 / 2251799813685248))"
    unfolding c x ten_steps_left by (auto simp: lateralOffset_def)
  from moveLeft_repeated [OF m, of sfo 11] obtain l11 where
    l11: "apply_calls sfo (replicate 11 MoveLeft) p0 = Some l11"
      "lateralOffset l11 = Some (- (7430939385161317 / 2251799813685248))"
    unfolding c x eleven_steps_left by (auto simp: lateralOffset_def)
  from moveRight_repeated [OF m, of sfo 10] obtain r10 where
    r10: "apply_calls sfo (replicate 10 MoveRight) p0 = Some r10"
      "lateralOffset r10 = Some (6755399441055743 / 2251799813685248)"
    unfolding c x ten_steps_right by (auto simp: lateralOffset_def)
  from moveRight_repeated [OF m, of sfo 11] obtain r11 where
    r11: "apply_calls sfo (replicate 11 MoveRight) p0 = Some r11"
      "lateralOffset r11 = Some (7430939385161317 / 2251799813685248)"
    unfolding c x eleven_steps_right by (auto simp: lateralOffset_def)
  have b: "- (7430939385161317 / 2251799813685248) < - maxLateralPosition p0"
    "maxLateralPosition p0 < 7430939385161317 / 2251799813685248"
    unfolding c by simp_all
  from n o c(1) l10 l11 r10 r11 b show ?thesis by blast
qed

section \<open>Player: the jump arc\<close>

lemma arcRun_numeral:
  "arcRun g y0 (numeral k) P s = arcCheck g y0 (pred_numeral k) P (arcStep g y0 s)"
  by (simp add: numeral_eq_Suc arcCheck_def)

lemma arcRun_one: "arcRun g y0 1 P s = arcCheck g y0 0 P (arcStep g y0 s)"
  by (simp add: arcCheck_def)

lemma arcStep_pair:
  "arcStep g y0 (j, f, v, a) = (if j \<or> f then arcMove y0 j f (fsub v g) a else (j, f, v, a))"
  by (simp add: arcStep_def)

lemma rising_pair: "rising (j, f, v, a) \<longleftrightarrow> j \<and> \<not> f \<and> 0 < a"
  by (simp add: rising_def)

lemma dropping_pair: "dropping (j, f, v, a) \<longleftrightarrow> \<not> j \<and> f \<and> 0 < a"
  by (simp add: dropping_def)

lemmas arc_eval = arcRun_numeral arcRun_one arcRun.simps(1) arcCheck_def arcStep_pair arcMove_def
  arcLand_def rising_pair dropping_pair float_eval

lemma rise29:
  "arcRun (5764607523034235 / 1152921504606846976) 0 29 rising
     (True, False, 5404319552844595 / 36028797018963968, 0)
   = Some (True, False, 5764607523034153 / 1152921504606846976,
           2448832297382705 / 1125899906842624)"
  by (simp add: arc_eval)

lemma apex30:
  "arcStep (5764607523034235 / 1152921504606846976) 0
     (True, False, 5764607523034153 / 1152921504606846976, 2448832297382705 / 1125899906842624)
   = (False, True, - (41 / 576460752303423488), 2448832297382705 / 1125899906842624)"
  by (simp add: arc_eval)

lemma drop58:
  "arcRun (5764607523034235 / 1152921504606846976) 0 28 dropping
     (False, True, - (41 / 576460752303423488), 2448832297382705 / 1125899906842624)
   = Some (False, True, - (315251973915935 / 2251799813685248),
           1306043891937409 / 9007199254740992)"
  by (simp add: arc_eval)

lemma land59:
  "arcStep (5764607523034235 / 1152921504606846976) 0
     (False, True, - (315251973915935 / 2251799813685248), 1306043891937409 / 9007199254740992)
   = (False, False, - (1306043891937445 / 9007199254740992), 0)"
  by (simp add: arc_eval)

lemma arcRun_sound:
  assumes "arcRun g y0 n P s = Some t"
  shows "t = iterate n (arcStep g y0) s"
    and "0 < k \<Longrightarrow> k \<le> n \<Longrightarrow> P (iterate k (arcStep g y0) s)"
  using assms
proof (induction n arbitrary: s k)
  case 0
  { case 1 then show ?case by simp }
  { case 2 then show ?case by simp }
next
  case (Suc n)
  { case 1
    then have "arcRun g y0 n P (arcStep g y0 s) = Some t" by (simp split: if_splits)
    from Suc.IH(1) [OF this] show ?case by simp }
  { case 2
    from 2(3) have P: "P (arcStep g y0 s)" and r: "arcRun g y0 n P (arcStep g y0 s) = Some t"
      by (simp_all split: if_splits)
    obtain k' where k: "k = Suc k'" using 2(1) by (cases k) simp_all
    show ?case
    proof (cases k')
      case 0
      then show ?thesis using P k by simp
    next
      case (Suc j)
      then have "P (iterate k' (arcStep g y0) (arcStep g y0 s))"
        using Suc.IH(2) [OF _ _ r, of k'] 2(2) k by simp
      then show ?thesis using k by simp
    qed }
qed

lemma Player_update_arc:
  assumes "mesh p = Some m"
  shows "\<exists>p'. Player_update sfo p = Some p' \<and> mesh p' \<noteq> None
     \<and> arcOf p' = Some (arcStep (gravity p) (vy (position p))
                         (isJumping p, isFalling p, jumpVelocity p, vy (mesh_position m)))
     \<and> gravity p' = gravity p \<and> position p' = position p"
  using assms
  by (auto simp: Player_update_def applyGravity_def animateRunning_def returnToCenter_def
      updateCollider_def arcOf_def arcStep_def arcMove_def arcLand_def Let_def)

lemma Player_updates_arc:
  assumes "mesh p \<noteq> None" "arcOf p = Some s"
  shows "\<exists>p'. apply_calls sfo (replicate n Update) p = Some p' \<and> mesh p' \<noteq> None
     \<and> arcOf p' = Some (iterate n (arcStep (gravity p) (vy (position p))) s)"
  using assms
proof (induction n arbitrary: p s)
  case 0
  then show ?case by simp
next
  case (Suc n)
  from Suc.prems(1) obtain m where m: "mesh p = Some m" by blast
  then have s: "s = (isJumping p, isFalling p, jumpVelocity p, vy (mesh_position m))"
    using Suc.prems(2) by (simp add: arcOf_def)
  from Player_update_arc [OF m, of sfo] obtain p1 where
    u: "Player_update sfo p = Some p1" "mesh p1 \<noteq> None"
       "arcOf p1 = Some (arcStep (gravity p) (vy (position p)) s)"
       "gravity p1 = gravity p" "position p1 = position p"
    unfolding s by blast
  from Suc.IH [OF u(2) u(3)] u(1,4,5) show ?case by (simp add: bind_opt_def)
qed

lemma arc_trajectory:
  fixes n :: nat
  defines "s \<equiv> iterate n (arcStep (5764607523034235 / 1152921504606846976) 0) arc0"
  shows "(if n = 0 then s = arc0 else if n < 30 then rising s
          else if n < 59 then dropping s else s = arc59)"
proof -
  let ?f = "arcStep (5764607523034235 / 1152921504606846976) 0"
  note r = arcRun_sound [OF rise29]
  have i29: "iterate 29 ?f arc0 = (True, False, 5764607523034153 / 1152921504606846976,
           2448832297382705 / 1125899906842624)"
    using r(1) by (simp add: arc0_def)
  have i30: "iterate 30 ?f arc0 = arc30"
    using iterate_add [of 29 1 ?f arc0] by (simp add: i29 apex30 arc30_def)
  note d = arcRun_sound [OF drop58]
  have i58: "iterate 28 ?f arc30 = (False, True, - (315251973915935 / 2251799813685248),
           1306043891937409 / 9007199254740992)"
    using d(1) by (simp add: arc30_def)
  have i59: "iterate 29 ?f arc30 = arc59"
    using iterate_add [of 28 1 ?f arc30] by (simp add: i58 land59 arc59_def)
  have fx: "?f arc59 = arc59" by (simp add: arc59_def arcStep_pair)
  consider "n = 0" | "0 < n" "n < 30" | "n = 30" | "30 < n" "n < 59" | "59 \<le> n" by linarith
  then show ?thesis
  proof cases
    case 1
    then show ?thesis by (simp add: s_def)
  next
    case 2
    then have "rising (iterate n ?f arc0)" using r(2) [of n] by (simp add: arc0_def)
    then show ?thesis using 2 by (simp add: s_def)
  next
    case 3
    then show ?thesis by (simp add: s_def i30 arc30_def dropping_pair)
  next
    case 4
    then have "iterate n ?f arc0 = iterate (n - 30) ?f arc30"
      using iterate_add [of 30 "n - 30" ?f arc0] by (simp add: i30)
    moreover have "dropping (iterate (n - 30) ?f arc30)"
      using d(2) [of "n - 30"] 4 by (simp add: arc30_def)
    ultimately show ?thesis using 4 by (simp add: s_def)
  next
    case 5
    then have "iterate n ?f arc0 = iterate (n - 59) ?f (iterate 29 ?f arc30)"
      using iterate_add [of 59 "n - 59" ?f arc0] iterate_add [of 30 29 ?f arc0] by (simp add: i30)
    moreover have "iterate (n - 59) ?f arc59 = arc59"
      using fx by (rule iterate_fixed [of ?f arc59])
    ultimately show ?thesis using 5 by (simp add: s_def i59)
  qed
qed

lemma ceil_jumpForce_over_gravity:
  "\<lceil>fdiv (5404319552844595 / 36028797018963968) (5764607523034235 / 1152921504606846976)\<rceil> = 30"
  by (simp add: float_eval)

lemma Player_update_jumpForce:
  "Player_update sfo p = Some p' \<Longrightarrow> jumpForce p' = jumpForce p"
  by (auto simp: Player_update_def applyGravity_def animateRunning_def updateCollider_def Let_def
      split: option.splits if_splits prod.splits)

lemma call_constants:
  assumes "mesh p = Some m"
  shows "\<exists>p'. apply_call sfo c p = Some p' \<and> mesh p' \<noteq> None
     \<and> jumpForce p' = jumpForce p \<and> gravity p' = gravity p \<and> position p' = position p"
proof (cases c)
  case Jump
  then show ?thesis using assms by (simp add: jump_def)
next
  case Update
  from Player_update_arc [OF assms, of sfo] show ?thesis
    using Update Player_update_jumpForce by auto
next
  case MoveLeft
  then show ?thesis using assms by (simp add: moveLeft_def updateCollider_def)
next
  case MoveRight
  then show ?thesis using assms by (simp add: moveRight_def updateCollider_def)
next
  case Reset
  then show ?thesis using assms by (simp add: Player_reset_def updateCollider_def)
qed

lemma calls_constants:
  assumes "mesh p = Some m"
  shows "\<exists>p'. apply_calls sfo cs p = Some p' \<and> mesh p' \<noteq> None
     \<and> jumpForce p' = jumpForce p \<and> gravity p' = gravity p \<and> position p' = position p"
  using assms
proof (induction cs arbitrary: p m)
  case Nil
  then show ?case by simp
next
  case (Cons c cs)
  from call_constants [OF Cons.prems, of sfo c] obtain p1 m1 where
    s: "apply_call sfo c p = Some p1" "mesh p1 = Some m1" "jumpForce p1 = jumpForce p"
       "gravity p1 = gravity p" "position p1 = position p" by auto
  from Cons.IH [OF s(2)] s show ?case by (simp add: bind_opt_def)
qed

lemma jump_arc_from:
  assumes "phaseOf p = Grounded" "verticalOffset p = Some 0"
    "jumpForce p = rnd (15 / 100)" "gravity p = rnd (5 / 1000)" "vy (position p) = 0"
  shows "\<exists>p' h. apply_calls sfo (Jump # replicate n Update) p = Some p'
            \<and> phaseOf p' = (if n < 30 then Ascending else if n < 59 then Descending else Grounded)
            \<and> verticalOffset p' = Some h \<and> 0 \<le> h \<and> (h = 0 \<longleftrightarrow> n = 0 \<or> 59 \<le> n)"
proof -
  from assms(2) obtain m where m0: "mesh p = Some m" "vy (mesh_position m) = 0"
    by (auto simp: verticalOffset_def)
  have fl: "\<not> isJumping p" "\<not> isFalling p"
    using assms(1) by (simp_all add: phaseOf_def split: if_splits)
  have c: "jumpForce p = 5404319552844595 / 36028797018963968"
    "gravity p = 5764607523034235 / 1152921504606846976"
    using assms(3,4) unfolding double_literals by simp_all
  have j: "mesh (jump p) \<noteq> None" "arcOf (jump p) = Some arc0"
    "gravity (jump p) = gravity p" "position (jump p) = position p"
    using c(1) m0 fl by (simp_all add: jump_def arcOf_def arc0_def)
  define s where "s = iterate n (arcStep (5764607523034235 / 1152921504606846976) 0) arc0"
  from Player_updates_arc [OF j(1) j(2), of sfo n] obtain p' where
    p: "apply_calls sfo (replicate n Update) (jump p) = Some p'" "arcOf p' = Some s"
    unfolding j(3) j(4) c assms(5) s_def by blast
  from p(2) obtain m' where m: "mesh p' = Some m'"
    "s = (isJumping p', isFalling p', jumpVelocity p', vy (mesh_position m'))"
    by (auto simp: arcOf_def)
  have t: "(if n = 0 then s = arc0 else if n < 30 then rising s
        else if n < 59 then dropping s else s = arc59)"
    unfolding s_def by (rule arc_trajectory)
  have "phaseOf p' = (if n < 30 then Ascending else if n < 59 then Descending else Grounded)
      \<and> 0 \<le> vy (mesh_position m') \<and> (vy (mesh_position m') = 0 \<longleftrightarrow> n = 0 \<or> 59 \<le> n)"
    using t unfolding m(2)
    by (auto simp: phaseOf_def arc0_def arc59_def rising_pair dropping_pair split: if_splits)
  then show ?thesis using p(1) m(1) by (simp add: bind_opt_def verticalOffset_def)
qed

lemma idle_update_stays_grounded:
  assumes "mesh p = Some m" "phaseOf p = Grounded"
  shows "\<exists>q. Player_update sfo p = Some q \<and> phaseOf q = Grounded
     \<and> verticalOffset q = verticalOffset p
     \<and> currentLegRotation q
         = fadd (currentLegRotation p) (fmul (legRotationSpeed p) (legRotationDirection p))"
  using assms
  by (auto simp: Player_update_def animateRunning_def updateCollider_def Let_def phaseOf_def
      verticalOffset_def returnToCenter_def split: if_splits)

text \<open>
  C3. Take any player that is Grounded at height 0, with jumpForce 0.15, gravity 0.005 and
  ground level 0. Then ceil(jumpForce / gravity) = 30 and, after jump(), the phase is
  Ascending through the first 29 calls of update() and Descending after the 30th; it
  stays Descending through the 58th and is Grounded from the 59th on. The height is
  never negative, and it is 0 exactly before the first update() and from the 59th on.
  The three constants have these values in every player reached from the constructor by
  method calls, and the constructor returns a player that is Grounded at height 0.
\<close>

theorem jump_arc:
  "(phaseOf p = Grounded \<and> verticalOffset p = Some 0
      \<and> jumpForce p = rnd (15 / 100) \<and> gravity p = rnd (5 / 1000) \<and> vy (position p) = 0
    \<longrightarrow> \<lceil>fdiv (jumpForce p) (gravity p)\<rceil> = 30
        \<and> (\<forall>n. \<exists>p' h. apply_calls sfo (Jump # replicate n Update) p = Some p'
              \<and> phaseOf p' = (if n < 30 then Ascending else if n < 59 then Descending else Grounded)
              \<and> verticalOffset p' = Some h \<and> 0 \<le> h \<and> (h = 0 \<longleftrightarrow> n = 0 \<or> 59 \<le> n)))
   \<and> (\<forall>p0. Player_new sfo = Some p0 \<and> apply_calls sfo cs p0 = Some p
        \<longrightarrow> jumpForce p = rnd (15 / 100) \<and> gravity p = rnd (5 / 1000) \<and> vy (position p) = 0)
   \<and> (\<exists>p0. Player_new sfo = Some p0 \<and> phaseOf p0 = Grounded \<and> verticalOffset p0 = Some 0)"
proof (intro conjI allI impI)
  assume a: "phaseOf p = Grounded \<and> verticalOffset p = Some 0
      \<and> jumpForce p = rnd (15 / 100) \<and> gravity p = rnd (5 / 1000) \<and> vy (position p) = 0"
  then have "jumpForce p = 5404319552844595 / 36028797018963968"
    "gravity p = 5764607523034235 / 1152921504606846976"
    unfolding double_literals by blast+
  then show "\<lceil>fdiv (jumpForce p) (gravity p)\<rceil> = 30"
    by (simp only: ceil_jumpForce_over_gravity)
  fix n
  from a show "\<exists>p' h. apply_calls sfo (Jump # replicate n Update) p = Some p'
              \<and> phaseOf p' = (if n < 30 then Ascending else if n < 59 then Descending else Grounded)
              \<and> verticalOffset p' = Some h \<and> 0 \<le> h \<and> (h = 0 \<longleftrightarrow> n = 0 \<or> 59 \<le> n)"
    using jump_arc_from by blast
next
  fix p0
  assume a: "Player_new sfo = Some p0 \<and> apply_calls sfo cs p0 = Some p"
  then have p0: "p0 = Player_fields\<lparr>mesh := Some (createMesh (Vector3 0 0 5)),
      collider := Some (playerBox sfo (createMesh (Vector3 0 0 5)))\<rparr>"
    by (simp add: Player_new_Some)
  then have m: "mesh p0 = Some (createMesh (Vector3 0 0 5))" by simp
  have k: "jumpForce p0 = rnd (15 / 100)" "gravity p0 = rnd (5 / 1000)" "vy (position p0) = 0"
    by (simp_all add: p0 Player_fields_def Vector3_def)
  from calls_constants [OF m, of sfo cs] a k
  show "jumpForce p = rnd (15 / 100)" "gravity p = rnd (5 / 1000)" "vy (position p) = 0"
    by auto
next
  define p0 where "p0 = Player_fields\<lparr>mesh := Some (createMesh (Vector3 0 0 5)),
      collider := Some (playerBox sfo (createMesh (Vector3 0 0 5)))\<rparr>"
  have "Player_new sfo = Some p0" unfolding p0_def by (rule Player_new_Some)
  moreover have "phaseOf p0 = Grounded" "verticalOffset p0 = Some 0"
    by (simp_all add: p0_def Player_fields_def phaseOf_def verticalOffset_def createMesh_def
        Vector3_def)
  ultimately show "\<exists>p0. Player_new sfo = Some p0 \<and> phaseOf p0 = Grounded
      \<and> verticalOffset p0 = Some 0"
    by blast
qed

theorem jump_arc_witness:
  "Player_new cuboidAt = Some examplePlayer
   \<and> phaseOf examplePlayer = Grounded \<and> verticalOffset examplePlayer = Some 0
   \<and> jumpForce examplePlayer = rnd (15 / 100) \<and> gravity examplePlayer = rnd (5 / 1000)
   \<and> vy (position examplePlayer) = 0
   \<and> \<lceil>fdiv (jumpForce examplePlayer) (gravity examplePlayer)\<rceil> = 30
   \<and> (\<forall>n. \<exists>p' h. apply_calls cuboidAt (Jump # replicate n Update) examplePlayer = Some p'
         \<and> phaseOf p' = (if n < 30 then Ascending else if n < 59 then Descending else Grounded)
         \<and> verticalOffset p' = Some h \<and> 0 \<le> h \<and> (h = 0 \<longleftrightarrow> n = 0 \<or> 59 \<le> n))
   \<and> (\<exists>q. apply_calls cuboidAt [Update] examplePlayer = Some q
         \<and> currentLegRotation q \<noteq> currentLegRotation examplePlayer
         \<and> phaseOf q = Grounded \<and> verticalOffset q = Some 0
         \<and> (\<forall>n. \<exists>p' h. apply_calls cuboidAt (Jump # replicate n Update) q = Some p'
               \<and> phaseOf p' = (if n < 30 then Ascending else if n < 59 then Descending else Grounded)
               \<and> verticalOffset p' = Some h \<and> 0 \<le> h \<and> (h = 0 \<longleftrightarrow> n = 0 \<or> 59 \<le> n)))"
proof -
  have new: "Player_new cuboidAt = Some examplePlayer"
    by (simp add: Player_new_Some examplePlayer_def)
  have m: "mesh examplePlayer = Some (createMesh (Vector3 0 0 5))"
    by (simp add: examplePlayer_def)
  have g: "phaseOf examplePlayer = Grounded" "verticalOffset examplePlayer = Some 0"
    by (simp_all add: examplePlayer_def Player_fields_def phaseOf_def verticalOffset_def
        createMesh_def Vector3_def)
  have k: "jumpForce examplePlayer = rnd (15 / 100)" "gravity examplePlayer = rnd (5 / 1000)"
    "vy (position examplePlayer) = 0"
    by (simp_all add: examplePlayer_def Player_fields_def Vector3_def)
  note a = jump_arc [of examplePlayer cuboidAt "[]"]
  from a g k have a1: "\<lceil>fdiv (jumpForce examplePlayer) (gravity examplePlayer)\<rceil> = 30"
    and a2: "\<forall>n. \<exists>p' h. apply_calls cuboidAt (Jump # replicate n Update) examplePlayer = Some p'
         \<and> phaseOf p' = (if n < 30 then Ascending else if n < 59 then Descending else Grounded)
         \<and> verticalOffset p' = Some h \<and> 0 \<le> h \<and> (h = 0 \<longleftrightarrow> n = 0 \<or> 59 \<le> n)"
    by blast+
  from idle_update_stays_grounded [OF m g(1), of cuboidAt] obtain q where
    q: "Player_update cuboidAt examplePlayer = Some q" "phaseOf q = Grounded"
       "verticalOffset q = Some 0"
       "currentLegRotation q = fadd (currentLegRotation examplePlayer)
           (fmul (legRotationSpeed examplePlayer) (legRotationDirection examplePlayer))"
    using g(2) by auto
  have r: "apply_calls cuboidAt [Update] examplePlayer = Some q"
    using q(1) by (simp add: bind_opt_def)
  have "currentLegRotation q = 3602879701896397 / 36028797018963968"
    unfolding q(4) examplePlayer_def Player_fields_def double_literals
    by (simp add: float_eval)
  then have ne: "currentLegRotation q \<noteq> currentLegRotation examplePlayer"
    by (simp add: examplePlayer_def Player_fields_def)
  note b = jump_arc [of q cuboidAt "[Update]"]
  from b new r have kq: "jumpForce q = rnd (15 / 100)" "gravity q = rnd (5 / 1000)"
    "vy (position q) = 0" by blast+
  from b q(2,3) kq have b2:
    "\<forall>n. \<exists>p' h. apply_calls cuboidAt (Jump # replicate n Update) q = Some p'
         \<and> phaseOf p' = (if n < 30 then Ascending else if n < 59 then Descending else Grounded)
         \<and> verticalOffset p' = Some h \<and> 0 \<le> h \<and> (h = 0 \<longleftrightarrow> n = 0 \<or> 59 \<le> n)"
    by blast
  from new g k a1 a2 r ne q(2,3) b2 show ?thesis by blast
qed

section \<open>Player: the tilt angle\<close>

lemma tilt_literals_pos: "0 < rnd (1 / 100)" "0 < rnd (5 / 100)" "0 < rnd (2 / 10)"
  unfolding double_literals by simp_all

lemma tiltOk_zero: "tiltOk 0"
  using tilt_literals_pos(3) by (simp add: tiltOk_def)

lemma returnToCenter_tilt:
  assumes "tiltOk (rotation_z m)"
  defines "t \<equiv> rotation_z m" and "t' \<equiv> rotation_z (returnToCenter m)"
  shows "tiltOk t'"
    and "t' = (if t > rnd (1 / 100) then fsub t (rnd (1 / 100))
               else if t < - rnd (1 / 100) then fadd t (rnd (1 / 100)) else 0)"
    and "0 \<le> t \<Longrightarrow> 0 \<le> t' \<and> t' \<le> t \<and> fsub t (rnd (1 / 100)) \<le> t'"
    and "t \<le> 0 \<Longrightarrow> t \<le> t' \<and> t' \<le> 0 \<and> t' \<le> fadd t (rnd (1 / 100))"
proof -
  note c = tilt_literals_pos
  have d: "rnd t = t" "- rnd (2 / 10) \<le> t" "t \<le> rnd (2 / 10)"
    using assms(1) by (simp_all add: tiltOk_def t_def)
  show e: "t' = (if t > rnd (1 / 100) then fsub t (rnd (1 / 100))
               else if t < - rnd (1 / 100) then fadd t (rnd (1 / 100)) else 0)"
    by (simp add: t'_def t_def returnToCenter_def)
  have up: "rnd (t - rnd (1 / 100)) \<le> t" using rnd_mono [of "t - rnd (1 / 100)" t] c d by simp
  have dn: "t \<le> rnd (t + rnd (1 / 100))" using rnd_mono [of t "t + rnd (1 / 100)"] c d by simp
  have p: "rnd (1 / 100) < t \<Longrightarrow> 0 \<le> rnd (t - rnd (1 / 100))"
    by (rule rnd_nonneg) simp
  have q: "t < - rnd (1 / 100) \<Longrightarrow> rnd (t + rnd (1 / 100)) \<le> 0"
    using rnd_mono [of "t + rnd (1 / 100)" 0] by simp
  have p': "t \<le> rnd (1 / 100) \<Longrightarrow> rnd (t - rnd (1 / 100)) \<le> 0"
    using rnd_mono [of "t - rnd (1 / 100)" 0] by simp
  have q': "- rnd (1 / 100) \<le> t \<Longrightarrow> 0 \<le> rnd (t + rnd (1 / 100))"
    by (rule rnd_nonneg) simp
  show "tiltOk t'"
    unfolding e tiltOk_def using up dn p q c d by (auto simp: fsub_def fadd_def)
  show "0 \<le> t \<Longrightarrow> 0 \<le> t' \<and> t' \<le> t \<and> fsub t (rnd (1 / 100)) \<le> t'"
    unfolding e using up p p' c by (auto simp: fsub_def fadd_def)
  show "t \<le> 0 \<Longrightarrow> t \<le> t' \<and> t' \<le> 0 \<and> t' \<le> fadd t (rnd (1 / 100))"
    unfolding e using dn q q' c by (auto simp: fsub_def fadd_def)
qed

lemma tilt_left:
  assumes "tiltOk t"
  defines "t' \<equiv> min (fadd t (rnd (5 / 100))) (rnd (2 / 10))"
  shows "tiltOk t'" and "t \<le> t'"
proof -
  have d: "rnd t = t" "- rnd (2 / 10) \<le> t" "t \<le> rnd (2 / 10)"
    using assms(1) by (simp_all add: tiltOk_def)
  have "t \<le> rnd (t + rnd (5 / 100))"
    using rnd_mono [of t "t + rnd (5 / 100)"] tilt_literals_pos d by simp
  then show "t \<le> t'" using d by (simp add: t'_def fadd_def)
  then show "tiltOk t'" using d by (auto simp: tiltOk_def t'_def fadd_def min_def)
qed

lemma tilt_right:
  assumes "tiltOk t"
  defines "t' \<equiv> max (fsub t (rnd (5 / 100))) (- rnd (2 / 10))"
  shows "tiltOk t'" and "t' \<le> t"
proof -
  have d: "rnd t = t" "- rnd (2 / 10) \<le> t" "t \<le> rnd (2 / 10)"
    using assms(1) by (simp_all add: tiltOk_def)
  have "rnd (t - rnd (5 / 100)) \<le> t"
    using rnd_mono [of "t - rnd (5 / 100)" t] tilt_literals_pos d by simp
  then show "t' \<le> t" using d by (simp add: t'_def fsub_def)
  then show "tiltOk t'" using d by (auto simp: tiltOk_def t'_def fsub_def max_def rnd_minus)
qed

lemma call_tilt:
  assumes "mesh p = Some m" "tiltOk (rotation_z m)"
  defines "t \<equiv> rotation_z m"
  shows "\<exists>p' m'. apply_call sfo c p = Some p' \<and> mesh p' = Some m' \<and> tiltOk (rotation_z m')
     \<and> (c = Jump \<longrightarrow> rotation_z m' = t)
     \<and> (c = Reset \<longrightarrow> rotation_z m' = 0)
     \<and> (c = MoveLeft \<longrightarrow>
           (rotation_z m' = t \<or> rotation_z m' = min (fadd t (rnd (5 / 100))) (rnd (2 / 10)))
           \<and> t \<le> rotation_z m')
     \<and> (c = MoveRight \<longrightarrow>
           (rotation_z m' = t \<or> rotation_z m' = max (fsub t (rnd (5 / 100))) (- rnd (2 / 10)))
           \<and> rotation_z m' \<le> t)
     \<and> (c = Update \<longrightarrow>
           rotation_z m' = (if t > rnd (1 / 100) then fsub t (rnd (1 / 100))
                            else if t < - rnd (1 / 100) then fadd t (rnd (1 / 100)) else 0)
           \<and> (0 \<le> t \<longrightarrow> 0 \<le> rotation_z m' \<and> rotation_z m' \<le> t
                 \<and> fsub t (rnd (1 / 100)) \<le> rotation_z m')
           \<and> (t \<le> 0 \<longrightarrow> t \<le> rotation_z m' \<and> rotation_z m' \<le> 0
                 \<and> rotation_z m' \<le> fadd t (rnd (1 / 100))))"
proof (cases c)
  case Jump
  then show ?thesis using assms by (simp add: jump_def)
next
  case Update
  obtain p1 m1 where a: "(if isJumping p \<or> isFalling p then applyGravity p m
      else animateRunning p m) = (p1, m1)" by fastforce
  then have r: "rotation_z m1 = rotation_z m"
    by (auto simp: applyGravity_def animateRunning_def Let_def split: if_splits)
  then have ok: "tiltOk (rotation_z m1)" using assms(2) by simp
  define m' where "m' = returnToCenter m1"
  define p' where "p' = p1\<lparr>mesh := Some m', collider := Some (playerBox sfo m')\<rparr>"
  have u: "apply_call sfo c p = Some p'" "mesh p' = Some m'"
    using assms(1) a Update by (simp_all add: Player_update_def updateCollider_def p'_def m'_def)
  note f = returnToCenter_tilt [OF ok, unfolded r, folded t_def m'_def]
  have "tiltOk (rotation_z m')
     \<and> rotation_z m' = (if t > rnd (1 / 100) then fsub t (rnd (1 / 100))
                            else if t < - rnd (1 / 100) then fadd t (rnd (1 / 100)) else 0)
     \<and> (0 \<le> t \<longrightarrow> 0 \<le> rotation_z m' \<and> rotation_z m' \<le> t
                 \<and> fsub t (rnd (1 / 100)) \<le> rotation_z m')
     \<and> (t \<le> 0 \<longrightarrow> t \<le> rotation_z m' \<and> rotation_z m' \<le> 0
                 \<and> rotation_z m' \<le> fadd t (rnd (1 / 100)))"
    using f by blast
  with u Update show ?thesis by blast
next
  case MoveLeft
  show ?thesis
    using tilt_left [OF assms(2)] assms MoveLeft
    by (simp add: moveLeft_def updateCollider_def)
next
  case MoveRight
  show ?thesis
    using tilt_right [OF assms(2)] assms MoveRight
    by (simp add: moveRight_def updateCollider_def)
next
  case Reset
  then show ?thesis using assms tiltOk_zero by (simp add: Player_reset_def updateCollider_def)
qed

lemma calls_tilt:
  assumes "mesh p = Some m" "tiltOk (rotation_z m)"
  shows "\<exists>p' m'. apply_calls sfo cs p = Some p' \<and> mesh p' = Some m' \<and> tiltOk (rotation_z m')"
  using assms
proof (induction cs arbitrary: p m)
  case Nil
  then show ?case by simp
next
  case (Cons c cs)
  from call_tilt [OF Cons.prems, of sfo c] obtain p1 m1 where
    s: "apply_call sfo c p = Some p1" "mesh p1 = Some m1" "tiltOk (rotation_z m1)" by blast
  from Cons.IH [OF s(2,3)] s(1) show ?case by (simp add: bind_opt_def)
qed

text \<open>
  C9. The tilt of a new player is 0. After any sequence of calls the tilt \<open>t\<close> lies in
  [-0.2, 0.2], and so does the tilt \<open>t'\<close> after one more call of any kind: jump()
  leaves it alone, reset() sets it to 0, moveLeft() raises it by 0.05 capped at 0.2 (or
  leaves it, at the edge), moveRight() lowers it by 0.05 capped at -0.2, and update()
  moves it towards 0 by the subtraction of 0.01, stopping at 0.
\<close>

theorem tilt_stays_within_bound:
  "\<exists>p0 p t p' t'.
     Player_new sfo = Some p0 \<and> tiltAngle p0 = Some 0
     \<and> apply_calls sfo cs p0 = Some p \<and> tiltAngle p = Some t
     \<and> - rnd (2 / 10) \<le> t \<and> t \<le> rnd (2 / 10)
     \<and> apply_call sfo c p = Some p' \<and> tiltAngle p' = Some t'
     \<and> - rnd (2 / 10) \<le> t' \<and> t' \<le> rnd (2 / 10)
     \<and> (c = Jump \<longrightarrow> t' = t)
     \<and> (c = Reset \<longrightarrow> t' = 0)
     \<and> (c = MoveLeft \<longrightarrow>
           (t' = t \<or> t' = min (fadd t (rnd (5 / 100))) (rnd (2 / 10))) \<and> t \<le> t')
     \<and> (c = MoveRight \<longrightarrow>
           (t' = t \<or> t' = max (fsub t (rnd (5 / 100))) (- rnd (2 / 10))) \<and> t' \<le> t)
     \<and> (c = Update \<longrightarrow>
           t' = (if t > rnd (1 / 100) then fsub t (rnd (1 / 100))
                 else if t < - rnd (1 / 100) then fadd t (rnd (1 / 100)) else 0)
           \<and> (0 \<le> t \<longrightarrow> 0 \<le> t' \<and> t' \<le> t \<and> fsub t (rnd (1 / 100)) \<le> t')
           \<and> (t \<le> 0 \<longrightarrow> t \<le> t' \<and> t' \<le> 0 \<and> t' \<le> fadd t (rnd (1 / 100))))"
proof -
  define p0 where "p0 = Player_fields\<lparr>mesh := Some (createMesh (Vector3 0 0 5)),
      collider := Some (playerBox sfo (createMesh (Vector3 0 0 5)))\<rparr>"
  have n: "Player_new sfo = Some p0" unfolding p0_def by (rule Player_new_Some)
  have m0: "mesh p0 = Some (createMesh (Vector3 0 0 5))" by (simp add: p0_def)
  have z: "rotation_z (createMesh (Vector3 0 0 5)) = 0" by (simp add: createMesh_def)
  have t0: "tiltAngle p0 = Some 0" by (simp add: tiltAngle_def m0 z)
  have ok0: "tiltOk (rotation_z (createMesh (Vector3 0 0 5)))" unfolding z by (rule tiltOk_zero)
  from calls_tilt [OF m0 ok0, of sfo cs] obtain p m where
    p: "apply_calls sfo cs p0 = Some p" "mesh p = Some m" "tiltOk (rotation_z m)" by blast
  have tp: "tiltAngle p = Some (rotation_z m)" by (simp add: tiltAngle_def p(2))
  have b: "- rnd (2 / 10) \<le> rotation_z m" "rotation_z m \<le> rnd (2 / 10)"
    using p(3) by (simp_all add: tiltOk_def)
  from call_tilt [OF p(2,3), of sfo c] obtain p' m' where
    q: "apply_call sfo c p = Some p'" "mesh p' = Some m'" "tiltOk (rotation_z m')"
    and e: "c = Jump \<longrightarrow> rotation_z m' = rotation_z m"
      "c = Reset \<longrightarrow> rotation_z m' = 0"
      "c = MoveLeft \<longrightarrow>
           (rotation_z m' = rotation_z m
            \<or> rotation_z m' = min (fadd (rotation_z m) (rnd (5 / 100))) (rnd (2 / 10)))
           \<and> rotation_z m \<le> rotation_z m'"
      "c = MoveRight \<longrightarrow>
           (rotation_z m' = rotation_z m
            \<or> rotation_z m' = max (fsub (rotation_z m) (rnd (5 / 100))) (- rnd (2 / 10)))
           \<and> rotation_z m' \<le> rotation_z m"
      "c = Update \<longrightarrow>
           rotation_z m' = (if rotation_z m > rnd (1 / 100) then fsub (rotation_z m) (rnd (1 / 100))
                            else if rotation_z m < - rnd (1 / 100)
                              then fadd (rotation_z m) (rnd (1 / 100)) else 0)
           \<and> (0 \<le> rotation_z m \<longrightarrow> 0 \<le> rotation_z m' \<and> rotation_z m' \<le> rotation_z m
                 \<and> fsub (rotation_z m) (rnd (1 / 100)) \<le> rotation_z m')
           \<and> (rotation_z m \<le> 0 \<longrightarrow> rotation_z m \<le> rotation_z m' \<and> rotation_z m' \<le> 0
                 \<and> rotation_z m' \<le> fadd (rotation_z m) (rnd (1 / 100)))"
    by blast
  have tq: "tiltAngle p' = Some (rotation_z m')" by (simp add: tiltAngle_def q(2))
  have b': "- rnd (2 / 10) \<le> rotation_z m'" "rotation_z m' \<le> rnd (2 / 10)"
    using q(3) by (simp_all add: tiltOk_def)
  from n t0 p(1) tp b q(1) tq b' e show ?thesis by blast
qed

theorem tilt_stays_within_bound_witness:
  "(\<exists>p0 p'. Player_new cuboidAt = Some p0 \<and> tiltAngle p0 = Some 0
       \<and> apply_call cuboidAt Jump p0 = Some p' \<and> tiltAngle p' = Some 0)
   \<and> (\<exists>p0 p'. Player_new cuboidAt = Some p0 \<and> tiltAngle p0 = Some 0
       \<and> apply_call cuboidAt Reset p0 = Some p' \<and> tiltAngle p' = Some 0)
   \<and> (\<exists>p0 p' t'. Player_new cuboidAt = Some p0 \<and> tiltAngle p0 = Some 0
       \<and> apply_call cuboidAt MoveLeft p0 = Some p' \<and> tiltAngle p' = Some t'
       \<and> 0 \<le> t' \<and> t' \<le> rnd (2 / 10))
   \<and> (\<exists>p0 p' t'. Player_new cuboidAt = Some p0 \<and> tiltAngle p0 = Some 0
       \<and> apply_call cuboidAt MoveRight p0 = Some p' \<and> tiltAngle p' = Some t'
       \<and> t' \<le> 0 \<and> - rnd (2 / 10) \<le> t')
   \<and> (\<exists>p0 p'. Player_new cuboidAt = Some p0 \<and> tiltAngle p0 = Some 0
       \<and> apply_call cuboidAt Update p0 = Some p' \<and> tiltAngle p' = Some 0)"
proof -
  have "\<exists>p0 p'. Player_new cuboidAt = Some p0 \<and> tiltAngle p0 = Some 0
       \<and> apply_call cuboidAt Jump p0 = Some p' \<and> tiltAngle p' = Some 0"
    using tilt_stays_within_bound [of cuboidAt "[]" Jump] by auto
  moreover have "\<exists>p0 p'. Player_new cuboidAt = Some p0 \<and> tiltAngle p0 = Some 0
       \<and> apply_call cuboidAt Reset p0 = Some p' \<and> tiltAngle p' = Some 0"
    using tilt_stays_within_bound [of cuboidAt "[]" Reset] by auto
  moreover have "\<exists>p0 p' t'. Player_new cuboidAt = Some p0 \<and> tiltAngle p0 = Some 0
       \<and> apply_call cuboidAt MoveLeft p0 = Some p' \<and> tiltAngle p' = Some t'
       \<and> 0 \<le> t' \<and> t' \<le> rnd (2 / 10)"
    using tilt_stays_within_bound [of cuboidAt "[]" MoveLeft] by auto
  moreover have "\<exists>p0 p' t'. Player_new cuboidAt = Some p0 \<and> tiltAngle p0 = Some 0
       \<and> apply_call cuboidAt MoveRight p0 = Some p' \<and> tiltAngle p' = Some t'
       \<and> t' \<le> 0 \<and> - rnd (2 / 10) \<le> t'"
    using tilt_stays_within_bound [of cuboidAt "[]" MoveRight] by auto
  moreover have "\<exists>p0 p'. Player_new cuboidAt = Some p0 \<and> tiltAngle p0 = Some 0
       \<and> apply_call cuboidAt Update p0 = Some p' \<and> tiltAngle p' = Some 0"
    using tilt_stays_within_bound [of cuboidAt "[]" Update] by auto
  ultimately show ?thesis by blast
qed

section \<open>ObstacleManager: speed\<close>

lemma speed_update:
  "speed (ObstacleManager_update sfo dt score d s)
     = fadd (initialSpeed s) (fmul score (speedIncreaseRate s))"
  by (simp add: ObstacleManager_update_def Let_def moveObstacles_fields spawnObstacle_fields)

lemma reachable_settings:
  "initialSpeed (manager_calls sfo cs (ObstacleManager_new r0 rs)) = rnd (2 / 10)"
  "speedIncreaseRate (manager_calls sfo cs (ObstacleManager_new r0 rs)) = rnd (1 / 100000)"
  "minSpawnInterval (manager_calls sfo cs (ObstacleManager_new r0 rs)) = 3 / 2"
  "maxSpawnInterval (manager_calls sfo cs (ObstacleManager_new r0 rs)) = 3"
  using manager_calls_frame [of sfo cs "ObstacleManager_new r0 rs"]
    ObstacleManager_new_settings [of r0 rs]
  by (simp_all add: settings_def)

lemma speed_mono:
  assumes "a \<le> b" "0 \<le> k"
  shows "fadd c (fmul a k) \<le> fadd c (fmul b k)"
proof -
  have "a * k \<le> b * k" using assms by (rule mult_right_mono)
  then have "rnd (a * k) \<le> rnd (b * k)" by (rule rnd_mono)
  then have "c + rnd (a * k) \<le> c + rnd (b * k)" by simp
  then show ?thesis unfolding fadd_def fmul_def by (rule rnd_mono)
qed

text \<open>
  C7. After every update(dt, score) the speed is initialSpeed + score * speedIncreaseRate,
  in floating point; on a manager built by the constructor, whatever calls came before,
  these are 0.2 and 0.00001. The speed at score 0 is 0.2, and a larger score never gives
  a smaller speed.
\<close>

theorem speed_follows_score:
  "speed (ObstacleManager_update sfo dt score d s0)
     = fadd (initialSpeed s0) (fmul score (speedIncreaseRate s0))
   \<and> (let s = manager_calls sfo cs (ObstacleManager_new r0 rs)
      in initialSpeed s = rnd (2 / 10) \<and> speedIncreaseRate s = rnd (1 / 100000)
         \<and> speed (ObstacleManager_update sfo dt score d s)
             = fadd (rnd (2 / 10)) (fmul score (rnd (1 / 100000)))
         \<and> speed (ObstacleManager_update sfo dt 0 d s) = rnd (2 / 10)
         \<and> (0 \<le> score \<and> score \<le> score'
              \<longrightarrow> speed (ObstacleManager_update sfo dt score d s)
                   \<le> speed (ObstacleManager_update sfo dt' score' d' s)))"
proof -
  define s where "s = manager_calls sfo cs (ObstacleManager_new r0 rs)"
  have c: "initialSpeed s = rnd (2 / 10)" "speedIncreaseRate s = rnd (1 / 100000)"
    unfolding s_def by (rule reachable_settings)+
  have k: "0 \<le> rnd (1 / 100000)" by (rule rnd_nonneg) simp
  have z: "speed (ObstacleManager_update sfo dt 0 d s) = rnd (2 / 10)"
    unfolding speed_update c by (simp add: fadd_def fmul_def)
  have m: "score \<le> score' \<Longrightarrow> speed (ObstacleManager_update sfo dt score d s)
                   \<le> speed (ObstacleManager_update sfo dt' score' d' s)"
    unfolding speed_update c using k by (simp add: speed_mono)
  have e: "speed (ObstacleManager_update sfo dt score d s)
             = fadd (rnd (2 / 10)) (fmul score (rnd (1 / 100000)))"
    unfolding speed_update c ..
  show ?thesis
    unfolding s_def [symmetric] Let_def using c z m e speed_update [of sfo dt score d s0]
    by blast
qed

theorem speed_follows_score_witness:
  "(0::real) \<le> 0 \<and> (0::real) \<le> 100
   \<and> speed (ObstacleManager_update cubeAt 1 0
              \<lparr>type_draw = 0, lane_draw = 0, interval_draw = 0\<rparr>
              (ObstacleManager_new 0 zeroDraws))
      \<le> speed (ObstacleManager_update cubeAt 1 100
              \<lparr>type_draw = 0, lane_draw = 0, interval_draw = 0\<rparr>
              (ObstacleManager_new 0 zeroDraws))
   \<and> speed (ObstacleManager_update cubeAt 1 0
              \<lparr>type_draw = 0, lane_draw = 0, interval_draw = 0\<rparr>
              (ObstacleManager_new 0 zeroDraws)) = rnd (2 / 10)"
  using speed_follows_score [of cubeAt 1 0 "\<lparr>type_draw = 0, lane_draw = 0, interval_draw = 0\<rparr>"
      "ObstacleManager_new 0 zeroDraws" "[]" 0 zeroDraws 100 1
      "\<lparr>type_draw = 0, lane_draw = 0, interval_draw = 0\<rparr>"]
  by (simp add: Let_def)

section \<open>Reset\<close>

lemma Player_reset_idem: "bind_opt (Player_reset sfo p) (Player_reset sfo) = Player_reset sfo p"
  by (cases "mesh p") (simp_all add: Player_reset_def updateCollider_def bind_opt_def)

lemma ObstacleManager_reset_fields:
  "activeObstacles (ObstacleManager_reset r s) = []"
  "obstaclePool (ObstacleManager_reset r s) = obstaclePool s @ activeObstacles s"
  "speed (ObstacleManager_reset r s) = initialSpeed s"
  "timeSinceLastSpawn (ObstacleManager_reset r s) = 0"
  "nextSpawnTime (ObstacleManager_reset r s) = getRandomSpawnInterval r s"
  using deactivate_all_frame [of s "activeObstacles s"]
  by (simp_all add: ObstacleManager_reset_def Let_def settings_def getRandomSpawnInterval_def)

lemma getRandomSpawnInterval_cong:
  "settings a = settings b \<Longrightarrow> getRandomSpawnInterval r a = getRandomSpawnInterval r b"
  by (simp add: getRandomSpawnInterval_def settings_def)

lemma reset_after_reset:
  "ObstacleManager_reset r2 (ObstacleManager_reset r1 s)
     = (ObstacleManager_reset r1 s)\<lparr>nextSpawnTime := getRandomSpawnInterval r2 s\<rparr>"
proof -
  define t where "t = ObstacleManager_reset r1 s"
  have a: "activeObstacles t = []" "speed t = initialSpeed s" "timeSinceLastSpawn t = 0"
    unfolding t_def by (rule ObstacleManager_reset_fields)+
  have i: "initialSpeed t = initialSpeed s"
    using ObstacleManager_reset_frame [of r1 s] by (simp add: t_def settings_def)
  have g: "getRandomSpawnInterval r2 (t\<lparr>activeObstacles := [], speed := initialSpeed t,
        timeSinceLastSpawn := 0\<rparr>) = getRandomSpawnInterval r2 s"
    using ObstacleManager_reset_frame [of r1 s]
    by (simp add: getRandomSpawnInterval_def settings_def t_def)
  have "t\<lparr>activeObstacles := [], speed := initialSpeed t, timeSinceLastSpawn := 0\<rparr> = t"
    using a i by simp
  then show ?thesis
    unfolding t_def [symmetric] using a g
    by (simp add: ObstacleManager_reset_def [of r2 t] Let_def)
qed

lemma interval_values:
  "fadd (fmul 0 (fsub 3 (3 / 2))) (3 / 2) = 3 / 2"
  "fadd (fmul (1 / 2) (fsub 3 (3 / 2))) (3 / 2) = 9 / 4"
  by (simp_all add: float_eval)

text \<open>
  C8, as stated, fails for the obstacle manager: reset() draws a new spawn interval each
  time. With \<open>Math.random()\<close> returning 0 and then 0.5, one reset() of a new manager
  leaves nextSpawnTime at 1.5 and a second one moves it to 2.25.
\<close>

theorem reset_twice_resamples_interval:
  "nextSpawnTime (ObstacleManager_reset (1 / 2)
                    (ObstacleManager_reset 0 (ObstacleManager_new 0 zeroDraws))) = 9 / 4
   \<and> nextSpawnTime (ObstacleManager_reset 0 (ObstacleManager_new 0 zeroDraws)) = 3 / 2
   \<and> ObstacleManager_reset (1 / 2) (ObstacleManager_reset 0 (ObstacleManager_new 0 zeroDraws))
       \<noteq> ObstacleManager_reset 0 (ObstacleManager_new 0 zeroDraws)"
proof -
  define s where "s = ObstacleManager_new 0 zeroDraws"
  have m: "minSpawnInterval s = 3 / 2" "maxSpawnInterval s = 3"
    using reachable_settings(3,4) [of cubeAt "[]" 0 zeroDraws] by (simp_all add: s_def)
  have a: "nextSpawnTime (ObstacleManager_reset (1 / 2) (ObstacleManager_reset 0 s)) = 9 / 4"
    unfolding reset_after_reset by (simp add: getRandomSpawnInterval_def m interval_values)
  have b: "nextSpawnTime (ObstacleManager_reset 0 s) = 3 / 2"
    unfolding ObstacleManager_reset_fields by (simp add: getRandomSpawnInterval_def m interval_values)
  from a b have "ObstacleManager_reset (1 / 2) (ObstacleManager_reset 0 s)
      \<noteq> ObstacleManager_reset 0 s" by force
  with a b show ?thesis unfolding s_def by blast
qed

text \<open>
  C8, amended. reset() on the player is idempotent in every state (a reset that throws
  throws again). reset() twice on the obstacle manager gives the state of one reset()
  in every field but nextSpawnTime, which holds the interval drawn by the second call;
  with equal draws the two states are equal.
\<close>

theorem reset_idempotent_up_to_interval:
  "bind_opt (Player_reset sfo p) (Player_reset sfo) = Player_reset sfo p
   \<and> ObstacleManager_reset r2 (ObstacleManager_reset r1 s)
       = (ObstacleManager_reset r1 s)\<lparr>nextSpawnTime := getRandomSpawnInterval r2 s\<rparr>
   \<and> ObstacleManager_reset r1 (ObstacleManager_reset r1 s) = ObstacleManager_reset r1 s"
proof -
  have "ObstacleManager_reset r1 (ObstacleManager_reset r1 s) = ObstacleManager_reset r1 s"
    unfolding reset_after_reset [of r1 r1 s]
    using ObstacleManager_reset_fields(5) [of r1 s] by (metis obstacleManager.surjective obstacleManager.update_convs(8))
  then show ?thesis using Player_reset_idem reset_after_reset by blast
qed

section \<open>ObstacleManager: the pool\<close>

lemma poolInv_preload:
  "poolInv s \<Longrightarrow> poolInv (preloadObstacles rs n s)"
proof (induction n arbitrary: rs s)
  case 0
  then show ?case by simp
next
  case (Suc n)
  have "poolInv (s\<lparr>objs := objs s @ [newObstacle (getRandomObstacleType (rs 0) s)],
                   obstaclePool := obstaclePool s @ [length (objs s)]\<rparr>)"
    using Suc.prems by (auto simp: poolInv_def lessThan_Suc)
  from Suc.IH [OF this] show ?case by (simp add: createObstacle_def)
qed

lemma poolInv_new: "poolInv (ObstacleManager_new r0 rs)"
  unfolding ObstacleManager_new_def
  by (rule poolInv_preload) (simp add: poolInv_def ObstacleManager_fields_def)

lemma poolInv_spawn:
  assumes "poolInv s"
  shows "poolInv (spawnObstacle sfo d s)"
proof (cases "length (obstaclePool s) > 0")
  case True
  then have "obstaclePool s = butlast (obstaclePool s) @ [last (obstaclePool s)]" by simp
  then have "distinct (butlast (obstaclePool s) @ activeObstacles s @ [last (obstaclePool s)])
      \<and> set (butlast (obstaclePool s) @ activeObstacles s @ [last (obstaclePool s)])
          = {..<length (objs s)}"
    using assms unfolding poolInv_def
    by (metis (no_types, lifting) append.assoc distinct_append inf_sup_aci(5) set_append
        Un_commute inf_commute)
  then show ?thesis using True by (simp add: spawnObstacle_def Let_def poolInv_def)
next
  case False
  then show ?thesis using assms
    by (auto simp: spawnObstacle_def Let_def poolInv_def createObstacle_def lessThan_Suc)
qed

lemma poolInv_remove_nth:
  assumes "distinct (pl @ ac)" "set (pl @ ac) = A" "i < length ac"
  shows "distinct ((pl @ [ac ! i]) @ take i ac @ drop (Suc i) ac)"
    and "set ((pl @ [ac ! i]) @ take i ac @ drop (Suc i) ac) = A"
proof -
  have e: "ac = take i ac @ ac ! i # drop (Suc i) ac"
    using assms(3) by (rule id_take_nth_drop)
  define xs where "xs = take i ac"
  define ys where "ys = drop (Suc i) ac"
  define a where "a = ac ! i"
  have e': "ac = xs @ a # ys" using e by (simp add: xs_def ys_def a_def)
  have "distinct (pl @ xs @ a # ys)" "set (pl @ xs @ a # ys) = A"
    using assms(1,2) unfolding e' by simp_all
  then show "distinct ((pl @ [ac ! i]) @ take i ac @ drop (Suc i) ac)"
    and "set ((pl @ [ac ! i]) @ take i ac @ drop (Suc i) ac) = A"
    unfolding xs_def [symmetric] ys_def [symmetric] a_def [symmetric] by auto
qed

lemma poolInv_moveObstacle:
  assumes "poolInv s" "i < length (activeObstacles s)"
  shows "poolInv (moveObstacle sfo i s)"
    and "i \<le> length (activeObstacles (moveObstacle sfo i s))"
proof -
  have d: "distinct (obstaclePool s @ activeObstacles s)"
    "set (obstaclePool s @ activeObstacles s) = {..<length (objs s)}"
    using assms(1) by (simp_all add: poolInv_def)
  note r = poolInv_remove_nth [OF d assms(2)]
  show "poolInv (moveObstacle sfo i s)"
    using r d unfolding poolInv_def moveObstacle_def Let_def by (simp del: append_assoc)
  show "i \<le> length (activeObstacles (moveObstacle sfo i s))"
    using assms(2) by (auto simp: moveObstacle_def Let_def)
qed

lemma poolInv_moveObstacles:
  assumes "poolInv s" "n \<le> length (activeObstacles s)"
  shows "poolInv (moveObstacles sfo n s)"
  using assms
proof (induction n arbitrary: s)
  case 0
  then show ?case by simp
next
  case (Suc n)
  then have i: "n < length (activeObstacles s)" by simp
  from poolInv_moveObstacle [OF Suc.prems(1) i, of sfo] Suc.IH show ?case by simp
qed

lemma poolInv_update:
  assumes "poolInv s"
  shows "poolInv (ObstacleManager_update sfo dt score d s)"
proof -
  have a: "poolInv (s\<lparr>speed := v, timeSinceLastSpawn := w\<rparr>)" for v w
    using assms by (simp add: poolInv_def)
  have b: "poolInv (t\<lparr>timeSinceLastSpawn := v, nextSpawnTime := w\<rparr>)" if "poolInv t" for t v w
    using that by (simp add: poolInv_def)
  show ?thesis
    unfolding ObstacleManager_update_def Let_def
    by (intro poolInv_moveObstacles) (auto intro!: a b poolInv_spawn)
qed

lemma poolInv_reset:
  assumes "poolInv s"
  shows "poolInv (ObstacleManager_reset r s)"
  using assms deactivate_all_frame [of s "activeObstacles s"]
  by (simp add: ObstacleManager_reset_def Let_def poolInv_def)

lemma poolInv_calls:
  "poolInv s \<Longrightarrow> poolInv (manager_calls sfo cs s)"
  by (induction sfo cs s rule: manager_calls.induct) (simp_all add: poolInv_update poolInv_reset)

text \<open>
  C2. After the constructor and any sequence of update(dt, score) and reset() calls, with
  any draws of \<open>Math.random()\<close>, the pool and the active list together hold as many
  references as obstacle records were ever created, no reference twice, and every record
  is referenced from exactly one of the two.
\<close>

theorem pool_conservation:
  "(let s = manager_calls sfo cs (ObstacleManager_new r0 rs)
    in length (obstaclePool s) + length (activeObstacles s) = length (objs s)
       \<and> distinct (obstaclePool s @ activeObstacles s)
       \<and> set (obstaclePool s) \<union> set (activeObstacles s) = {..<length (objs s)}
       \<and> set (obstaclePool s) \<inter> set (activeObstacles s) = {})"
proof -
  define s where "s = manager_calls sfo cs (ObstacleManager_new r0 rs)"
  have "poolInv s" unfolding s_def by (intro poolInv_calls poolInv_new)
  then have d: "distinct (obstaclePool s @ activeObstacles s)"
    and e: "set (obstaclePool s @ activeObstacles s) = {..<length (objs s)}"
    by (simp_all add: poolInv_def)
  from d have "card (set (obstaclePool s @ activeObstacles s))
      = length (obstaclePool s @ activeObstacles s)" by (rule distinct_card)
  then have "length (obstaclePool s) + length (activeObstacles s) = length (objs s)"
    unfolding e by simp
  then show ?thesis unfolding s_def [symmetric] Let_def using d e by auto
qed

section \<open>CollisionDetector: what a check writes\<close>







section \<open>CollisionDetector: the result of a check\<close>

lemma scanObstacles_hit:
  assumes "collider (player d) = Some pb" "ocollider ob = Some b" "intersectsBox pb b"
  shows "scanObstacles d (xs @ ob # ys) = Some True"
  unfolding scanObstacles_Some [OF assms(1)] using assms(2,3) by auto

text \<open>
  C5. checkCollisions() returns false when the player has no mesh or no collider.
  Otherwise it returns true exactly when some active obstacle has a collider that
  overlaps the player's box, as the call recomputes it, on the x, y and z axes at once;
  and the scan answers true at an overlapping obstacle whatever comes after it.
\<close>

theorem checkCollisions_detects_overlap:
  "(mesh (player d) = None \<or> collider (player d) = None
      \<longrightarrow> map_option fst (checkCollisions sfo d) = Some False)
   \<and> (\<forall>m c. mesh (player d) = Some m \<and> collider (player d) = Some c
      \<longrightarrow> map_option fst (checkCollisions sfo d)
           = Some (\<exists>ob \<in> set (activeRecords (obstacles d)). \<exists>b. ocollider ob = Some b
                 \<and> vx (bmin (playerBox sfo m)) \<le> vx (bmax b)
                 \<and> vx (bmin b) \<le> vx (bmax (playerBox sfo m))
                 \<and> vy (bmin (playerBox sfo m)) \<le> vy (bmax b)
                 \<and> vy (bmin b) \<le> vy (bmax (playerBox sfo m))
                 \<and> vz (bmin (playerBox sfo m)) \<le> vz (bmax b)
                 \<and> vz (bmin b) \<le> vz (bmax (playerBox sfo m))))
   \<and> (\<forall>pb b. collider (player d) = Some pb \<and> ocollider ob = Some b \<and> intersectsBox pb b
      \<longrightarrow> scanObstacles d (xs @ ob # ys) = Some True)"
proof (intro conjI allI impI)
  assume "mesh (player d) = None \<or> collider (player d) = None"
  then show "map_option fst (checkCollisions sfo d) = Some False"
    by (simp add: checkCollisions_absent)
next
  fix m c
  assume "mesh (player d) = Some m \<and> collider (player d) = Some c"
  then have f: "mesh (player d) = Some m" "collider (player d) = Some c" by simp_all
  show "map_option fst (checkCollisions sfo d)
           = Some (\<exists>ob \<in> set (activeRecords (obstacles d)). \<exists>b. ocollider ob = Some b
                 \<and> vx (bmin (playerBox sfo m)) \<le> vx (bmax b)
                 \<and> vx (bmin b) \<le> vx (bmax (playerBox sfo m))
                 \<and> vy (bmin (playerBox sfo m)) \<le> vy (bmax b)
                 \<and> vy (bmin b) \<le> vy (bmax (playerBox sfo m))
                 \<and> vz (bmin (playerBox sfo m)) \<le> vz (bmax b)
                 \<and> vz (bmin b) \<le> vz (bmax (playerBox sfo m)))"
    unfolding checkCollisions_present [OF f] by (simp add: intersectsBox_iff)
next
  fix pb b
  assume "collider (player d) = Some pb \<and> ocollider ob = Some b \<and> intersectsBox pb b"
  then show "scanObstacles d (xs @ ob # ys) = Some True"
    using scanObstacles_hit by blast
qed

theorem checkCollisions_detects_overlap_witness:
  "mesh (player (CollisionDetector_new Player_fields exampleManager)) = None
   \<and> map_option fst (checkCollisions cuboidAt (CollisionDetector_new Player_fields exampleManager))
       = Some False
   \<and> mesh (player (CollisionDetector_new examplePlayer exampleManager))
       = Some (createMesh (Vector3 0 0 5))
   \<and> collider (player (CollisionDetector_new examplePlayer exampleManager))
       = Some (playerBox cuboidAt (createMesh (Vector3 0 0 5)))
   \<and> map_option fst (checkCollisions cuboidAt (CollisionDetector_new examplePlayer exampleManager))
       = Some True
   \<and> ocollider nearObstacle = Some (Box3 (Vector3 (- 1) 0 4) (Vector3 1 1 6))
   \<and> intersectsBox (playerBox cuboidAt (createMesh (Vector3 0 0 5)))
        (Box3 (Vector3 (- 1) 0 4) (Vector3 1 1 6))
   \<and> scanObstacles (CollisionDetector_new examplePlayer exampleManager)
        ([bareObstacle] @ nearObstacle # [bareObstacle]) = Some True"
proof -
  define d where "d = CollisionDetector_new examplePlayer exampleManager"
  define d0 where "d0 = CollisionDetector_new Player_fields exampleManager"
  note t = checkCollisions_detects_overlap [of d cuboidAt nearObstacle "[bareObstacle]" "[bareObstacle]"]
  note t0 = checkCollisions_detects_overlap [of d0 cuboidAt nearObstacle "[]" "[]"]
  have f: "mesh (player d) = Some (createMesh (Vector3 0 0 5))"
    "collider (player d) = Some (playerBox cuboidAt (createMesh (Vector3 0 0 5)))"
    "activeRecords (obstacles d) = [bareObstacle, nearObstacle]"
    "mesh (player d0) = None"
    by (simp_all add: d_def d0_def CollisionDetector_new_def example_fields)
  have a: "map_option fst (checkCollisions cuboidAt d0) = Some False"
    using t0 f(4) by blast
  have "map_option fst (checkCollisions cuboidAt d)
       = Some (\<exists>ob \<in> set (activeRecords (obstacles d)). \<exists>b. ocollider ob = Some b
                 \<and> intersectsBox (playerBox cuboidAt (createMesh (Vector3 0 0 5))) b)"
    using t f(1,2) unfolding intersectsBox_iff by blast
  then have b: "map_option fst (checkCollisions cuboidAt d) = Some True"
    unfolding f(3) using example_overlap by (simp add: example_fields)
  have c: "scanObstacles d ([bareObstacle] @ nearObstacle # [bareObstacle]) = Some True"
    using t f(2) example_fields(8) example_overlap by blast
  from a b c f example_fields(8) example_overlap show ?thesis
    unfolding d_def d0_def by blast
qed

section \<open>CollisionDetector: obstacles without a collider\<close>

text \<open>
  C10. An obstacle whose collider is null is not a collision: checkObstacleCollision
  returns false for it without throwing, the scan goes on as if it were not in the list,
  and checkCollisions() still returns true when another active obstacle overlaps the
  player.
\<close>

theorem missing_obstacle_collider_is_skipped:
  "(ocollider ob = None
      \<longrightarrow> checkObstacleCollision d ob = Some False
          \<and> scanObstacles d (xs @ ob # ys) = scanObstacles d (xs @ ys))
   \<and> (\<forall>m c other b. mesh (player d) = Some m \<and> collider (player d) = Some c
        \<and> ob \<in> set (activeRecords (obstacles d)) \<and> ocollider ob = None
        \<and> other \<in> set (activeRecords (obstacles d)) \<and> ocollider other = Some b
        \<and> intersectsBox (playerBox sfo m) b
      \<longrightarrow> map_option fst (checkCollisions sfo d) = Some True)"
proof (intro conjI allI impI)
  assume n: "ocollider ob = None"
  then show "checkObstacleCollision d ob = Some False"
    by (simp add: checkObstacleCollision_def)
  then show "scanObstacles d (xs @ ob # ys) = scanObstacles d (xs @ ys)"
    by (induction xs) (simp_all add: bind_opt_def split: option.splits)
next
  fix m c other b
  assume h: "mesh (player d) = Some m \<and> collider (player d) = Some c
        \<and> ob \<in> set (activeRecords (obstacles d)) \<and> ocollider ob = None
        \<and> other \<in> set (activeRecords (obstacles d)) \<and> ocollider other = Some b
        \<and> intersectsBox (playerBox sfo m) b"
  then have f: "mesh (player d) = Some m" "collider (player d) = Some c" by simp_all
  show "map_option fst (checkCollisions sfo d) = Some True"
    unfolding checkCollisions_present [OF f] using h by auto
qed

theorem missing_obstacle_collider_is_skipped_witness:
  "ocollider bareObstacle = None
   \<and> checkObstacleCollision (CollisionDetector_new examplePlayer exampleManager) bareObstacle
       = Some False
   \<and> scanObstacles (CollisionDetector_new examplePlayer exampleManager)
        ([] @ bareObstacle # [nearObstacle])
       = scanObstacles (CollisionDetector_new examplePlayer exampleManager) ([] @ [nearObstacle])
   \<and> bareObstacle \<in> set (activeRecords (obstacles (CollisionDetector_new examplePlayer exampleManager)))
   \<and> nearObstacle \<in> set (activeRecords (obstacles (CollisionDetector_new examplePlayer exampleManager)))
   \<and> map_option fst (checkCollisions cuboidAt (CollisionDetector_new examplePlayer exampleManager))
       = Some True"
proof -
  define d where "d = CollisionDetector_new examplePlayer exampleManager"
  note t = missing_obstacle_collider_is_skipped [of bareObstacle d "[]" "[nearObstacle]" cuboidAt]
  have f: "mesh (player d) = Some (createMesh (Vector3 0 0 5))"
    "collider (player d) = Some (playerBox cuboidAt (createMesh (Vector3 0 0 5)))"
    "bareObstacle \<in> set (activeRecords (obstacles d))"
    "nearObstacle \<in> set (activeRecords (obstacles d))"
    by (simp_all add: d_def CollisionDetector_new_def example_fields)
  have a: "checkObstacleCollision d bareObstacle = Some False"
    "scanObstacles d ([] @ bareObstacle # [nearObstacle]) = scanObstacles d ([] @ [nearObstacle])"
    using t example_fields(7) by blast+
  have b: "map_option fst (checkCollisions cuboidAt d) = Some True"
    using t f example_fields(7,8) example_overlap by blast
  from a b f example_fields(7) show ?thesis unfolding d_def by blast
qed

end
